theory Spec2Isabelle
  imports Complex_Main "HOL-Library.Multiset"
begin

section \<open>The environment of a request\<close>

text \<open>
  The program reads three things from outside: the random generator of Python's
  \<^verbatim>\<open>random\<close> module, the wall clock (\<^verbatim>\<open>datetime.now\<close>) and the optional
  document store \<^verbatim>\<open>db\<close>. Each is explicit state that the functions take and
  return.

  Prices are exact real numbers (the source computes them in binary floating point;
  the rounding error of a float operation is outside the model). A date is a number
  of microseconds since 1 January 1970, negative before it; a day is 86400000000 of
  them. A string is a list of 8-bit characters, and
  \<^verbatim>\<open>lower\<close>, \<^verbatim>\<open>strip\<close> and \<^verbatim>\<open>split\<close> are those of ASCII text.
\<close>

type_synonym oid = nat
type_synonym timestamp = int

record PricePoint =
  date :: timestamp
  point_price :: real

record PlatformPrice =
  platform :: string
  price :: real
  currency :: string
  url :: "string option"
  rating :: "real option"
  delivery :: "string option"
  last_updated :: timestamp
  history :: "PricePoint list"

text \<open>
  A price entry as the program builds it is a dictionary with the keys of
  \<^typ>\<open>PlatformPrice\<close>; the seeded entries carry three more keys, absent from an
  ephemeral entry.
\<close>

record price_doc = PlatformPrice +
  product_id :: "oid option"
  entry_created_at :: "timestamp option"
  entry_updated_at :: "timestamp option"

record product_doc =
  p_id :: "oid option"
  p_name :: string
  p_normalized_name :: string
  p_brand :: "string option"
  p_category :: string
  p_image :: string
  p_created_at :: timestamp
  p_updated_at :: timestamp

record search_doc =
  sr_query :: string
  sr_brand :: "string option"
  sr_category :: "string option"
  sr_price_min :: "real option"
  sr_price_max :: "real option"
  sr_results_count :: nat
  sr_created_at :: timestamp

datatype store_op =
  TruthValue | FindOneProduct | InsertOneProduct | FindPriceEntries | InsertManyPriceEntries
  | CreateSearchRecord

text \<open>
  Modelled from the spec: the document store of \<^verbatim>\<open>database.py\<close> (the handle
  \<^verbatim>\<open>db\<close> and \<^verbatim>\<open>create_document\<close>), which is not among the sources. It is
  "a collection-oriented store exposing find-one-by-filter, find-many-by-filter,
  insert-one and insert-many on the named collections product, priceentry and
  searchrecord". A collection is the list of its documents in insertion order. An
  operation of the store can fail (section 7 of the spec: a store operation failure);
  \<open>broken\<close> lists the operations that raise. The truth value of the handle, which
  \<^verbatim>\<open>ensure_product_in_db\<close> takes in \<^verbatim>\<open>if db\<close>, is one of the operations: it is true
  for a configured store ("if a persistent store is available, look up a product"), or
  it raises, for a handle of a class that refuses to be used as a condition.
\<close>

record store =
  product :: "product_doc list"
  priceentry :: "price_doc list"
  searchrecord :: "search_doc list"
  broken :: "store_op list"

text \<open>
  The handle \<^verbatim>\<open>db\<close> is \<open>None\<close> when no store is configured and \<open>Some s\<close>
  otherwise; it is passed to and returned by every function that uses the store. The
  rest of the environment is the \<open>world\<close>: the random generator, the clock, and the
  counter from which \<^verbatim>\<open>ObjectId()\<close> takes a fresh identifier (the text of an
  identifier, \<^verbatim>\<open>str(oid)\<close>, is the identifier itself).
\<close>

record world =
  rng :: "nat list"
  clock :: nat
  ticks :: "nat list"
  next_oid :: oid

datatype error = StoreError | ValidationError | OverflowError

section \<open>Catalogs and utilities\<close>

definition PLATFORMS :: "string list" where
  "PLATFORMS = [''Amazon'', ''Flipkart'', ''Myntra'', ''AJIO'', ''Meesho'', ''Tata Cliq'', ''Croma'']"

definition SAMPLE_IMAGES :: "string list" where
  "SAMPLE_IMAGES =
    [''https://images.unsplash.com/photo-1511707171634-5f897ff02aa9?w=800'',
     ''https://images.unsplash.com/photo-1517336714731-489689fd1ca8?w=800'',
     ''https://images.unsplash.com/photo-1512496015851-a90fb38ba796?w=800'']"

definition DELIVERIES :: "string list" where
  "DELIVERIES = [''2-3 days'', ''Next day'', ''Standard (3-5 days)'']"

subsection \<open>The random generator and the clock\<close>

text \<open>
  The generator is the sequence of raw values it will deliver; once the list is used
  up it delivers 0. \<^verbatim>\<open>random.random()\<close> is a multiple of \<open>2\<^sup>-\<^sup>5\<^sup>3\<close> in \<open>[0, 1)\<close>,
  \<^verbatim>\<open>random.uniform(a, b)\<close> is \<^verbatim>\<open>a + (b - a) * random()\<close>, and
  \<^verbatim>\<open>random.choice(xs)\<close> is \<^verbatim>\<open>xs[randbelow(len(xs))]\<close>; the program calls it on
  its constant, non-empty lists only.
\<close>

definition draw :: "world \<Rightarrow> nat \<times> world" where
  "draw w = (case rng w of [] \<Rightarrow> (0, w) | d # ds \<Rightarrow> (d, w\<lparr>rng := ds\<rparr>))"

text \<open>The \<open>k\<close>-th value the generator \<open>ds\<close> delivers, counted from 0.\<close>

definition nth_draw :: "nat list \<Rightarrow> nat \<Rightarrow> nat" where
  "nth_draw ds k = (if k < length ds then ds ! k else 0)"

definition unit_of :: "nat \<Rightarrow> real" where
  "unit_of d = of_nat (d mod 2 ^ 53) / 2 ^ 53"

definition uniform_of :: "real \<Rightarrow> real \<Rightarrow> nat \<Rightarrow> real" where
  "uniform_of a b d = a + (b - a) * unit_of d"

definition uniform :: "real \<Rightarrow> real \<Rightarrow> world \<Rightarrow> real \<times> world" where
  "uniform a b w = (case draw w of (d, w') \<Rightarrow> (uniform_of a b d, w'))"

definition choice :: "'a list \<Rightarrow> world \<Rightarrow> 'a \<times> world" where
  "choice xs w = (case draw w of (d, w') \<Rightarrow> (xs ! (d mod length xs), w'))"

text \<open>
  The clock is read by \<^verbatim>\<open>datetime.now(timezone.utc)\<close>. It shows the microseconds
  since 1 January 1970, a natural number (the system clock reads no time before that
  day); between two reads it advances by the next element of \<open>ticks\<close>, and never goes
  back.
\<close>

definition advance :: "world \<Rightarrow> world" where
  "advance w = (case ticks w of [] \<Rightarrow> w | t # ts \<Rightarrow> w\<lparr>clock := clock w + t, ticks := ts\<rparr>)"

definition now :: "world \<Rightarrow> timestamp \<times> world" where
  "now w = (int (clock w), advance w)"

definition DAY :: int where
  "DAY = 86400000000"

text \<open>
  \<^verbatim>\<open>datetime.min\<close>, 1 January of year 1 at 00:00 UTC, is 719162 days before
  1 January 1970.
\<close>

definition DATETIME_MIN :: timestamp where
  "DATETIME_MIN = - 62135596800000000"

text \<open>
  \<^verbatim>\<open>t - timedelta(days=i)\<close>. \<^verbatim>\<open>timedelta\<close> raises \<^verbatim>\<open>OverflowError\<close> for
  more than 999999999 days, and the subtraction raises it when the result is before
  \<^verbatim>\<open>datetime.min\<close>. The program subtracts \<open>i \<ge> 0\<close> days only, so the result is
  never after \<open>t\<close> and cannot leave the range of \<^verbatim>\<open>datetime\<close> at its upper end.
\<close>

definition minus_days :: "timestamp \<Rightarrow> int \<Rightarrow> error + timestamp" where
  "minus_days t i =
     (if 999999999 < \<bar>i\<bar> then Inl OverflowError
      else if t - i * DAY < DATETIME_MIN then Inl OverflowError
      else Inr (t - i * DAY))"

text \<open>Python's \<^verbatim>\<open>round(x, n)\<close>: to the nearest multiple of \<open>10\<^sup>-\<^sup>n\<close>, a tie to the even one.\<close>

definition round_half_even :: "real \<Rightarrow> int" where
  "round_half_even y =
     (let f = \<lfloor>y\<rfloor>; r = y - of_int f
      in if r < 1 / 2 then f else if 1 / 2 < r then f + 1 else if even f then f else f + 1)"

definition py_round :: "real \<Rightarrow> nat \<Rightarrow> real" where
  "py_round x n = of_int (round_half_even (x * 10 ^ n)) / 10 ^ n"

subsection \<open>rand\_price and make\_history\<close>

text \<open>\<open>jitter base d\<close> is the value of \<^verbatim>\<open>rand_price(base)\<close> when the generator delivers \<open>d\<close>.\<close>

definition jitter :: "real \<Rightarrow> nat \<Rightarrow> real" where
  "jitter base d =
     (let variance = base * (15 / 100)
      in py_round (uniform_of (base - variance) (base + variance) d) 2)"

definition rand_price :: "real \<Rightarrow> world \<Rightarrow> real \<times> world" where
  "rand_price base w = (case draw w of (d, w') \<Rightarrow> (jitter base d, w'))"

text \<open>\<^verbatim>\<open>range(days, -1, -1)\<close>: \<open>days, days - 1, \<dots>, 0\<close>, empty when \<open>days < 0\<close>.\<close>

definition range_down :: "int \<Rightarrow> int list" where
  "range_down days = rev [0..days]"

text \<open>
  The loop of \<^verbatim>\<open>make_history\<close>. A function that can raise returns the error or its
  result, and the world.
\<close>

fun make_history_loop :: "int list \<Rightarrow> real \<Rightarrow> world \<Rightarrow> (error + PricePoint list) \<times> world" where
  "make_history_loop [] cur w = (Inr [], w)"
| "make_history_loop (i # is) cur w =
     (case rand_price cur w of (r, w1) \<Rightarrow>
      let cur' = max 100 r in
      case now w1 of (t, w2) \<Rightarrow>
      case minus_days t i of
        Inl e \<Rightarrow> (Inl e, w2)
      | Inr d \<Rightarrow>
         (case make_history_loop is cur' w2 of
            (Inl e, w3) \<Rightarrow> (Inl e, w3)
          | (Inr pts, w3) \<Rightarrow> (Inr (\<lparr>date = d, point_price = cur'\<rparr> # pts), w3)))"

definition make_history :: "real \<Rightarrow> int \<Rightarrow> world \<Rightarrow> (error + PricePoint list) \<times> world" where
  "make_history base days w = make_history_loop (range_down days) base w"

text \<open>
  Every offset of \<open>is\<close> can be subtracted from the clock reading of \<open>w\<close> (and so from
  every later one).
\<close>

definition offsets_ok :: "int list \<Rightarrow> world \<Rightarrow> bool" where
  "offsets_ok is w =
     list_all (\<lambda>i. \<bar>i\<bar> \<le> 999999999 \<and> DATETIME_MIN \<le> int (clock w) - i * DAY) is"

subsection \<open>Strings\<close>

text \<open>\<^verbatim>\<open>str.lower\<close> on ASCII text: the 26 capital letters change, nothing else does.\<close>

definition lower_char :: "char \<Rightarrow> char" where
  "lower_char c =
     (case map_of (zip ''ABCDEFGHIJKLMNOPQRSTUVWXYZ'' ''abcdefghijklmnopqrstuvwxyz'') c of
        Some l \<Rightarrow> l
      | None \<Rightarrow> c)"

definition lower :: "string \<Rightarrow> string" where
  "lower s = map lower_char s"

text \<open>
  The ASCII characters of \<^verbatim>\<open>str.isspace\<close>: tab, line feed, vertical tab, form feed,
  carriage return, the four separators 28 to 31 and the space.
\<close>

definition is_space :: "char \<Rightarrow> bool" where
  "is_space c = (c \<in> set [CHR 0x09, CHR 0x0A, CHR 0x0B, CHR 0x0C, CHR 0x0D,
                             CHR 0x1C, CHR 0x1D, CHR 0x1E, CHR 0x1F, CHR '' ''])"

definition strip :: "string \<Rightarrow> string" where
  "strip s = rev (dropWhile is_space (rev (dropWhile is_space s)))"

text \<open>\<^verbatim>\<open>s.split()\<close>: the maximal runs of characters that are not white space.\<close>

fun split_acc :: "string \<Rightarrow> string \<Rightarrow> string list" where
  "split_acc cur [] = (if cur = [] then [] else [cur])"
| "split_acc cur (c # cs) =
     (if is_space c then (if cur = [] then split_acc [] cs else cur # split_acc [] cs)
      else split_acc (cur @ [c]) cs)"

definition split_ws :: "string \<Rightarrow> string list" where
  "split_ws s = split_acc [] s"

fun join :: "string \<Rightarrow> string list \<Rightarrow> string" where
  "join sep [] = []"
| "join sep [x] = x"
| "join sep (x # y # ys) = x @ sep @ join sep (y # ys)"

definition normalize :: "string \<Rightarrow> string" where
  "normalize text = join '' '' (split_ws (strip (lower text)))"

text \<open>\<^verbatim>\<open>p.replace(' ', '').lower()\<close>\<close>

definition host_of :: "string \<Rightarrow> string" where
  "host_of p = lower (filter (\<lambda>c. c \<noteq> CHR '' '') p)"

section \<open>The document store\<close>

text \<open>
  Modelled from the spec: the operations of the store (\<^verbatim>\<open>database.py\<close> is not among
  the sources). \<open>find_one\<close> returns the first document of the collection that matches,
  \<open>find\<close> all of them in order; \<open>insert_one\<close> gives the document a fresh identifier and
  appends it; \<open>insert_many\<close> appends the documents; \<open>create_document\<close> stamps the
  record with the creation time and appends it ("SearchRecord: an append-only log entry
  ... with a creation timestamp"). An operation listed in \<open>broken\<close> raises and changes
  nothing.
\<close>

definition find_one_product :: "string \<Rightarrow> store \<Rightarrow> error + product_doc option" where
  "find_one_product nrm s =
     (if FindOneProduct \<in> set (broken s) then Inl StoreError
      else Inr (List.find (\<lambda>p. p_normalized_name p = nrm) (product s)))"

definition insert_one_product :: "product_doc \<Rightarrow> store \<Rightarrow> world \<Rightarrow> (error + oid \<times> store) \<times> world" where
  "insert_one_product doc s w =
     (if InsertOneProduct \<in> set (broken s) then (Inl StoreError, w)
      else (Inr (next_oid w, s\<lparr>product := product s @ [doc\<lparr>p_id := Some (next_oid w)\<rparr>]\<rparr>),
            w\<lparr>next_oid := Suc (next_oid w)\<rparr>))"

definition find_priceentry :: "oid \<Rightarrow> store \<Rightarrow> error + price_doc list" where
  "find_priceentry pid s =
     (if FindPriceEntries \<in> set (broken s) then Inl StoreError
      else Inr (filter (\<lambda>e. product_id e = Some pid) (priceentry s)))"

definition insert_many_priceentry :: "price_doc list \<Rightarrow> store \<Rightarrow> error + store" where
  "insert_many_priceentry docs s =
     (if InsertManyPriceEntries \<in> set (broken s) then Inl StoreError
      else Inr (s\<lparr>priceentry := priceentry s @ docs\<rparr>))"

definition create_document_searchrecord ::
  "string \<Rightarrow> string option \<Rightarrow> string option \<Rightarrow> real option \<Rightarrow> real option \<Rightarrow> nat \<Rightarrow>
   store \<Rightarrow> world \<Rightarrow> (error + store) \<times> world" where
  "create_document_searchrecord q brand category price_min price_max n s w =
     (if CreateSearchRecord \<in> set (broken s) then (Inl StoreError, w)
      else case now w of (t, w') \<Rightarrow>
        (Inr (s\<lparr>searchrecord := searchrecord s @
            [\<lparr>sr_query = q, sr_brand = brand, sr_category = category, sr_price_min = price_min,
              sr_price_max = price_max, sr_results_count = n, sr_created_at = t\<rparr>]\<rparr>), w'))"

text \<open>The store \<open>s\<close> with the write of search records failing.\<close>

definition brk :: "store \<Rightarrow> store" where
  "brk s = s\<lparr>broken := CreateSearchRecord # broken s\<rparr>"

definition new_ObjectId :: "world \<Rightarrow> oid \<times> world" where
  "new_ObjectId w = (next_oid w, w\<lparr>next_oid := Suc (next_oid w)\<rparr>)"

section \<open>Product and price resolution\<close>

text \<open>
  The body of the loops \<^verbatim>\<open>for p in PLATFORMS\<close> that seed price entries (lines
  133 to 148 of \<^verbatim>\<open>ensure_product_in_db\<close> and 178 to 193 of
  \<^verbatim>\<open>find_or_generate_prices\<close>; the two differ only in the expressions for the
  product identifier and the normalized name, the parameters \<open>pid\<close> and \<open>nrm\<close>
  here). The values of a dictionary display are evaluated from top to bottom.
\<close>

fun seed_loop ::
  "string list \<Rightarrow> oid \<Rightarrow> string \<Rightarrow> real \<Rightarrow> world \<Rightarrow> (error + price_doc list) \<times> world" where
  "seed_loop [] pid nrm base w = (Inr [], w)"
| "seed_loop (p # ps) pid nrm base w =
     (case rand_price base w of (pr, w1) \<Rightarrow>
      case uniform (35 / 10) 5 w1 of (rt, w2) \<Rightarrow>
      case choice DELIVERIES w2 of (dl, w3) \<Rightarrow>
      case now w3 of (lu, w4) \<Rightarrow>
      case make_history pr 14 w4 of
        (Inl e, w5) \<Rightarrow> (Inl e, w5)
      | (Inr h, w5) \<Rightarrow>
         (case now w5 of (ca, w6) \<Rightarrow>
          case now w6 of (ua, w7) \<Rightarrow>
          case seed_loop ps pid nrm base w7 of
            (Inl e, w8) \<Rightarrow> (Inl e, w8)
          | (Inr rest, w8) \<Rightarrow>
             (Inr (\<lparr>platform = p, price = pr, currency = ''INR'',
                    url = Some (''https://'' @ host_of p @ ''.com/search?q='' @ nrm),
                    rating = Some (py_round rt 1), delivery = Some dl, last_updated = lu,
                    history = h, product_id = Some pid, entry_created_at = Some ca,
                    entry_updated_at = Some ua\<rparr> # rest),
              w8)))"

text \<open>\<^verbatim>\<open>base = random.uniform(499, 49999)\<close> and the seeding loop.\<close>

definition seed_entries :: "oid \<Rightarrow> string \<Rightarrow> world \<Rightarrow> (error + price_doc list) \<times> world" where
  "seed_entries pid nrm w =
     (case uniform 499 49999 w of (base, w1) \<Rightarrow> seed_loop PLATFORMS pid nrm base w1)"

text \<open>The loop of the ephemeral path (lines 159 to 170 of \<^verbatim>\<open>find_or_generate_prices\<close>).\<close>

fun ephemeral_loop :: "string list \<Rightarrow> real \<Rightarrow> world \<Rightarrow> (error + price_doc list) \<times> world" where
  "ephemeral_loop [] base w = (Inr [], w)"
| "ephemeral_loop (p # ps) base w =
     (case rand_price base w of (pr, w1) \<Rightarrow>
      case uniform (35 / 10) 5 w1 of (rt, w2) \<Rightarrow>
      case choice DELIVERIES w2 of (dl, w3) \<Rightarrow>
      case now w3 of (lu, w4) \<Rightarrow>
      case make_history pr 14 w4 of
        (Inl e, w5) \<Rightarrow> (Inl e, w5)
      | (Inr h, w5) \<Rightarrow>
         (case ephemeral_loop ps base w5 of
            (Inl e, w6) \<Rightarrow> (Inl e, w6)
          | (Inr rest, w6) \<Rightarrow>
             (Inr (\<lparr>platform = p, price = pr, currency = ''INR'',
                    url = Some (''https://'' @ host_of p @ ''.com''),
                    rating = Some (py_round rt 1), delivery = Some dl, last_updated = lu,
                    history = h, product_id = None, entry_created_at = None,
                    entry_updated_at = None\<rparr> # rest),
              w6)))"

definition ephemeral_entries :: "world \<Rightarrow> (error + price_doc list) \<times> world" where
  "ephemeral_entries w =
     (case uniform 499 49999 w of (base, w1) \<Rightarrow> ephemeral_loop PLATFORMS base w1)"

text \<open>
  \<^verbatim>\<open>ensure_product_in_db\<close>. A function returns its result (or the error it
  raised), the store handle and the world. \<^verbatim>\<open>category or "General"\<close> replaces an
  absent and an empty category. A stored product is a non-empty dictionary, so
  \<^verbatim>\<open>if existing\<close> holds whenever one was found.
\<close>

definition category_or_General :: "string option \<Rightarrow> string" where
  "category_or_General category =
     (case category of None \<Rightarrow> ''General'' | Some c \<Rightarrow> if c = [] then ''General'' else c)"

definition ensure_product_in_db ::
  "string \<Rightarrow> string option \<Rightarrow> string option \<Rightarrow> store option \<Rightarrow> world \<Rightarrow>
   (error + product_doc) \<times> store option \<times> world" where
  "ensure_product_in_db name brand category db w =
     (let nrm = normalize name in
      case (case db of
              None \<Rightarrow> Inr None
            | Some s \<Rightarrow> if TruthValue \<in> set (broken s) then Inl StoreError
                        else find_one_product nrm s) of
        Inl e \<Rightarrow> (Inl e, db, w)
      | Inr (Some existing) \<Rightarrow> (Inr existing, db, w)
      | Inr None \<Rightarrow>
         (case choice SAMPLE_IMAGES w of (img, w1) \<Rightarrow>
          case now w1 of (ca, w2) \<Rightarrow>
          case now w2 of (ua, w3) \<Rightarrow>
          let doc = \<lparr>p_id = None, p_name = name, p_normalized_name = nrm, p_brand = brand,
                     p_category = category_or_General category, p_image = img,
                     p_created_at = ca, p_updated_at = ua\<rparr> in
          case db of
            None \<Rightarrow> (Inr doc, None, w3)
          | Some s \<Rightarrow>
             (case insert_one_product doc s w3 of
                (Inl e, w4) \<Rightarrow> (Inl e, Some s, w4)
              | (Inr (inserted_id, s1), w4) \<Rightarrow>
                 (let doc1 = doc\<lparr>p_id := Some inserted_id\<rparr> in
                  case seed_entries inserted_id nrm w4 of
                    (Inl e, w5) \<Rightarrow> (Inl e, Some s1, w5)
                  | (Inr seeded, w5) \<Rightarrow>
                     if seeded \<noteq> [] then
                       (case insert_many_priceentry seeded s1 of
                          Inl e \<Rightarrow> (Inl e, Some s1, w5)
                        | Inr s2 \<Rightarrow> (Inr doc1, Some s2, w5))
                     else (Inr doc1, Some s1, w5)))))"

definition find_or_generate_prices ::
  "product_doc \<Rightarrow> store option \<Rightarrow> world \<Rightarrow> (error + price_doc list) \<times> store option \<times> world" where
  "find_or_generate_prices product_doc db w =
     (case db of
        None \<Rightarrow>
         (case ephemeral_entries w of
            (Inl e, w1) \<Rightarrow> (Inl e, None, w1)
          | (Inr out, w1) \<Rightarrow> (Inr out, None, w1))
      | Some s \<Rightarrow>
         (case p_id product_doc of
            None \<Rightarrow>
             (case ephemeral_entries w of
                (Inl e, w1) \<Rightarrow> (Inl e, Some s, w1)
              | (Inr out, w1) \<Rightarrow> (Inr out, Some s, w1))
          | Some pid \<Rightarrow>
             (case find_priceentry pid s of
                Inl e \<Rightarrow> (Inl e, Some s, w)
              | Inr items \<Rightarrow>
                 if items = [] then
                   (case seed_entries pid (p_normalized_name product_doc) w of
                      (Inl e, w1) \<Rightarrow> (Inl e, Some s, w1)
                    | (Inr seeded, w1) \<Rightarrow>
                       if seeded \<noteq> [] then
                         (case insert_many_priceentry seeded s of
                            Inl e \<Rightarrow> (Inl e, Some s, w1)
                          | Inr s1 \<Rightarrow> (Inr seeded, Some s1, w1))
                       else (Inr items, Some s, w1))
                 else (Inr items, Some s, w))))"

text \<open>
  Two price entries are the same offer when they agree on the platform, the price, the
  currency, the rating, the delivery and the prices of the history.
\<close>

definition same_offer :: "price_doc \<Rightarrow> price_doc \<Rightarrow> bool" where
  "same_offer a b =
     (platform a = platform b \<and> price a = price b \<and> currency a = currency b \<and>
      rating a = rating b \<and> delivery a = delivery b \<and>
      map point_price (history a) = map point_price (history b))"

section \<open>The search endpoint\<close>

record ProductResult =
  r_id :: oid
  r_name :: string
  r_brand :: "string option"
  r_category :: "string option"
  r_image :: "string option"
  r_platforms :: "PlatformPrice list"

record search_filters =
  f_category :: "string option"
  f_brand :: "string option"
  f_price_min :: "real option"
  f_price_max :: "real option"

record SearchResponse =
  query :: string
  results :: "ProductResult list"
  filters :: search_filters
  generated_at :: timestamp

definition in_range :: "real option \<Rightarrow> real option \<Rightarrow> real \<Rightarrow> bool" where
  "in_range price_min price_max v =
     (if price_min \<noteq> None \<and> v < the price_min then False
      else if price_max \<noteq> None \<and> the price_max < v then False
      else True)"

text \<open>The block "Apply price range filters" of \<^verbatim>\<open>search_products\<close>.\<close>

definition apply_price_range :: "real option \<Rightarrow> real option \<Rightarrow> price_doc list \<Rightarrow> price_doc list" where
  "apply_price_range price_min price_max prices =
     (if price_min \<noteq> None \<or> price_max \<noteq> None
      then filter (\<lambda>p. in_range price_min price_max (price p)) prices
      else prices)"

text \<open>
  \<^verbatim>\<open>PlatformPrice(**p)\<close>: the fields of the model are taken from the dictionary,
  the other keys are dropped, and a rating outside \<open>[0, 5]\<close> is refused
  (\<^verbatim>\<open>Field(ge=0, le=5)\<close>).
\<close>

definition rating_ok :: "real option \<Rightarrow> bool" where
  "rating_ok r = (case r of None \<Rightarrow> True | Some x \<Rightarrow> 0 \<le> x \<and> x \<le> 5)"

definition to_PlatformPrice :: "price_doc \<Rightarrow> PlatformPrice" where
  "to_PlatformPrice p = PlatformPrice.truncate p"

fun build_platforms :: "price_doc list \<Rightarrow> error + PlatformPrice list" where
  "build_platforms [] = Inr []"
| "build_platforms (p # ps) =
     (if rating_ok (rating p) then
        (case build_platforms ps of Inl e \<Rightarrow> Inl e | Inr rest \<Rightarrow> Inr (to_PlatformPrice p # rest))
      else Inl ValidationError)"

text \<open>
  The \<^verbatim>\<open>try\<close> block at the end of \<^verbatim>\<open>search_products\<close>: the record is written
  when a store is configured, and an exception of the write is dropped.
\<close>

definition persist_search_record ::
  "string \<Rightarrow> string option \<Rightarrow> string option \<Rightarrow> real option \<Rightarrow> real option \<Rightarrow> nat \<Rightarrow>
   store option \<Rightarrow> world \<Rightarrow> store option \<times> world" where
  "persist_search_record q brand category price_min price_max n db w =
     (case db of
        None \<Rightarrow> (None, w)
      | Some s \<Rightarrow>
         (case create_document_searchrecord q brand category price_min price_max n s w of
            (Inl e, w1) \<Rightarrow> (Some s, w1)
          | (Inr s1, w1) \<Rightarrow> (Some s1, w1)))"

definition search_products ::
  "string \<Rightarrow> string option \<Rightarrow> string option \<Rightarrow> real option \<Rightarrow> real option \<Rightarrow> store option \<Rightarrow> world \<Rightarrow>
   (error + SearchResponse) \<times> store option \<times> world" where
  "search_products q category brand price_min price_max db w =
     (case ensure_product_in_db q brand category db w of
        (Inl e, db1, w1) \<Rightarrow> (Inl e, db1, w1)
      | (Inr product_doc, db1, w1) \<Rightarrow>
     (case find_or_generate_prices product_doc db1 w1 of
        (Inl e, db2, w2) \<Rightarrow> (Inl e, db2, w2)
      | (Inr found, db2, w2) \<Rightarrow>
     (let prices = apply_price_range price_min price_max found in
      case new_ObjectId w2 of (fresh, w3) \<Rightarrow>
      case build_platforms prices of
        Inl e \<Rightarrow> (Inl e, db2, w3)
      | Inr pps \<Rightarrow>
         (let result = \<lparr>r_id = (case p_id product_doc of Some i \<Rightarrow> i | None \<Rightarrow> fresh),
                         r_name = p_name product_doc, r_brand = p_brand product_doc,
                         r_category = Some (p_category product_doc),
                         r_image = Some (p_image product_doc), r_platforms = pps\<rparr> in
          case now w3 of (t, w4) \<Rightarrow>
          let response = \<lparr>query = q, results = [result],
                            filters = \<lparr>f_category = category, f_brand = brand,
                                        f_price_min = price_min, f_price_max = price_max\<rparr>,
                            generated_at = t\<rparr> in
          case persist_search_record q brand category price_min price_max
                 (length (r_platforms result)) db2 w4 of
            (db3, w5) \<Rightarrow> (Inr response, db3, w5)))))"

section \<open>Trending deals\<close>

record deal_price =
  dp_platform :: string
  dp_price :: real
  dp_currency :: string
  dp_url :: string
  dp_last_updated :: timestamp

record deal =
  deal_name :: string
  deal_brand :: string
  deal_category :: string
  deal_image :: string
  deal_platforms :: "deal_price list"
  deal_lowest :: "deal_price option"

text \<open>
  \<^verbatim>\<open>random.sample(population, k)\<close> as CPython computes it for a small population:
  \<open>k\<close> times, an index \<open>j\<close> below the size of the pool is drawn, \<open>pool[j]\<close> is
  taken, and the last element of the pool moves to position \<open>j\<close>. The one call of the
  program asks for \<open>min(4, len(PLATFORMS))\<close> elements, never more than the population
  holds.
\<close>

fun sample_loop :: "'a list \<Rightarrow> nat \<Rightarrow> world \<Rightarrow> 'a list \<times> world" where
  "sample_loop pool 0 w = ([], w)"
| "sample_loop pool (Suc k) w =
     (case draw w of (d, w1) \<Rightarrow>
      let j = d mod length pool in
      case sample_loop (butlast (pool[j := last pool])) k w1 of (xs, w2) \<Rightarrow>
        (pool ! j # xs, w2))"

definition sample :: "'a list \<Rightarrow> nat \<Rightarrow> world \<Rightarrow> 'a list \<times> world" where
  "sample population k w = sample_loop population k w"

text \<open>\<^verbatim>\<open>min(xs, key=lambda x: x["price"]) if xs else None\<close>: the first of the cheapest.\<close>

fun min_by_price :: "deal_price list \<Rightarrow> deal_price option" where
  "min_by_price [] = None"
| "min_by_price (x # xs) =
     Some (foldl (\<lambda>m y. if dp_price y < dp_price m then y else m) x xs)"

definition DEAL_NAMES :: "string list" where
  "DEAL_NAMES = [''iPhone 15'', ''Samsung Galaxy S23'', ''Sony WH-1000XM5'',
                 ''Nike Air Max'', ''Dell XPS 13'', ''MacBook Air M2'']"

definition DEAL_BRANDS :: "string list" where
  "DEAL_BRANDS = [''Apple'', ''Samsung'', ''Sony'', ''Nike'', ''Dell'', ''Apple'']"

definition DEAL_CATEGORIES :: "string list" where
  "DEAL_CATEGORIES = [''Mobiles'', ''Headphones'', ''Shoes'', ''Laptops'']"

fun deal_prices_loop :: "string list \<Rightarrow> string \<Rightarrow> real \<Rightarrow> world \<Rightarrow> deal_price list \<times> world" where
  "deal_prices_loop [] nm base w = ([], w)"
| "deal_prices_loop (p # ps) nm base w =
     (case rand_price base w of (pr, w1) \<Rightarrow>
      case now w1 of (t, w2) \<Rightarrow>
      case deal_prices_loop ps nm base w2 of (rest, w3) \<Rightarrow>
        (\<lparr>dp_platform = p, dp_price = pr, dp_currency = ''INR'',
          dp_url = ''https://'' @ host_of p @ ''.com/search?q='' @ nm,
          dp_last_updated = t\<rparr> # rest, w3))"

definition make_deal :: "world \<Rightarrow> deal \<times> world" where
  "make_deal w =
     (case choice DEAL_NAMES w of (nm, w1) \<Rightarrow>
      case choice DEAL_BRANDS w1 of (br, w2) \<Rightarrow>
      case choice DEAL_CATEGORIES w2 of (ct, w3) \<Rightarrow>
      case uniform 999 149999 w3 of (base, w4) \<Rightarrow>
      case sample PLATFORMS (min 4 (length PLATFORMS)) w4 of (ps, w5) \<Rightarrow>
      case deal_prices_loop ps nm base w5 of (platform_prices, w6) \<Rightarrow>
      let lowest = min_by_price platform_prices in
      case choice SAMPLE_IMAGES w6 of (img, w7) \<Rightarrow>
        (\<lparr>deal_name = nm, deal_brand = br, deal_category = ct, deal_image = img,
          deal_platforms = platform_prices, deal_lowest = lowest\<rparr>, w7))"

text \<open>\<^verbatim>\<open>for _ in range(limit)\<close>: \<open>limit\<close> rounds, none when \<open>limit\<close> is negative.\<close>

fun deals_loop :: "nat \<Rightarrow> world \<Rightarrow> deal list \<times> world" where
  "deals_loop 0 w = ([], w)"
| "deals_loop (Suc n) w =
     (case make_deal w of (d, w1) \<Rightarrow>
      case deals_loop n w1 of (ds, w2) \<Rightarrow> (d # ds, w2))"

definition trending_deals :: "int \<Rightarrow> world \<Rightarrow> (deal list \<times> timestamp) \<times> world" where
  "trending_deals limit w =
     (case deals_loop (nat limit) w of (items, w1) \<Rightarrow>
      case now w1 of (t, w2) \<Rightarrow> ((items, t), w2))"

section \<open>Example inputs\<close>

text \<open>A world whose clock shows 4 November 2026, 20761 days after 1 January 1970.\<close>

definition w0 :: world where
  "w0 = \<lparr>rng = [0, 2 ^ 52, 2 ^ 53 - 1], clock = 20761 * 86400000000, ticks = [5, 0, 7],
          next_oid = 0\<rparr>"

definition e1 :: price_doc where
  "e1 = \<lparr>platform = ''Amazon'', price = 1500, currency = ''INR'',
          url = Some ''https://amazon.com/search?q=iphone 15'', rating = Some (45 / 10),
          delivery = Some ''Next day'', last_updated = 0, history = [],
          product_id = Some 7, entry_created_at = Some 0, entry_updated_at = Some 0\<rparr>"

definition e2 :: price_doc where
  "e2 = \<lparr>platform = ''Flipkart'', price = 2500, currency = ''INR'',
          url = Some ''https://flipkart.com/search?q=iphone 15'', rating = Some 4,
          delivery = Some ''2-3 days'', last_updated = 0, history = [],
          product_id = Some 7, entry_created_at = Some 0, entry_updated_at = Some 0\<rparr>"

definition pd0 :: product_doc where
  "pd0 = \<lparr>p_id = Some 7, p_name = ''iPhone 15'', p_normalized_name = ''iphone 15'',
           p_brand = Some ''Apple'', p_category = ''Mobiles'', p_image = hd SAMPLE_IMAGES,
           p_created_at = 0, p_updated_at = 0\<rparr>"

text \<open>The same product as the resolver builds it when no store is configured: without identifier.\<close>

definition pd_new :: product_doc where
  "pd_new = pd0\<lparr>p_id := None\<rparr>"

text \<open>A store that holds one product and two price entries for it.\<close>

definition s0 :: store where
  "s0 = \<lparr>product = [pd0], priceentry = [e1, e2], searchrecord = [], broken = []\<rparr>"

text \<open>An empty store whose product lookup fails.\<close>

definition s_down :: store where
  "s_down = \<lparr>product = [], priceentry = [], searchrecord = [], broken = [FindOneProduct]\<rparr>"

text \<open>An empty store, and a store that holds the product but no price entry.\<close>

definition s_empty :: store where
  "s_empty = \<lparr>product = [], priceentry = [], searchrecord = [], broken = []\<rparr>"

definition s1 :: store where
  "s1 = \<lparr>product = [pd0], priceentry = [], searchrecord = [], broken = []\<rparr>"

section \<open>The random generator, the clock and make\_history\<close>

lemma draw_eq: "draw w = (nth_draw (rng w) 0, w\<lparr>rng := tl (rng w)\<rparr>)"
  by (simp add: draw_def nth_draw_def split: list.splits)

lemma nth_draw_tl: "nth_draw (tl ds) k = nth_draw ds (Suc k)"
  by (cases ds) (simp_all add: nth_draw_def)

lemma nth_draw_drop: "nth_draw (drop n ds) k = nth_draw ds (n + k)"
  by (auto simp add: nth_draw_def)

lemma rand_price_eq: "rand_price b w = (jitter b (nth_draw (rng w) 0), w\<lparr>rng := tl (rng w)\<rparr>)"
  by (simp add: rand_price_def draw_eq)

lemma uniform_eq: "uniform a b w = (uniform_of a b (nth_draw (rng w) 0), w\<lparr>rng := tl (rng w)\<rparr>)"
  by (simp add: uniform_def draw_eq)

lemma choice_eq: "choice xs w = (xs ! (nth_draw (rng w) 0 mod length xs), w\<lparr>rng := tl (rng w)\<rparr>)"
  by (simp add: choice_def draw_eq)

lemma now_fst: "fst (now w) = int (clock w)"
  by (simp add: now_def)

lemma advance_rng: "rng (advance w) = rng w"
  by (simp add: advance_def split: list.splits)

lemma advance_next_oid: "next_oid (advance w) = next_oid w"
  by (simp add: advance_def split: list.splits)

lemma advance_clock: "clock w \<le> clock (advance w)"
  by (simp add: advance_def split: list.splits)

lemma now_rng: "rng (snd (now w)) = rng w"
  by (simp add: now_def advance_rng)

lemma now_next_oid: "next_oid (snd (now w)) = next_oid w"
  by (simp add: now_def advance_next_oid)

lemma now_clock: "clock w \<le> clock (snd (now w))"
  by (simp add: now_def advance_clock)

lemma offsets_ok_Cons:
  "offsets_ok (i # is) w \<longleftrightarrow>
     \<bar>i\<bar> \<le> 999999999 \<and> DATETIME_MIN \<le> int (clock w) - i * DAY \<and> offsets_ok is w"
  by (simp add: offsets_ok_def)

lemma offsets_ok_later: "offsets_ok is w \<Longrightarrow> clock w \<le> clock w' \<Longrightarrow> offsets_ok is w'"
  by (induction "is") (auto simp add: offsets_ok_def)

lemma offsets_ok_step: "offsets_ok is w \<Longrightarrow> offsets_ok is (advance (w\<lparr>rng := r\<rparr>))"
  using advance_clock[of "w\<lparr>rng := r\<rparr>"] by (auto intro: offsets_ok_later)

lemma minus_days_ok:
  "\<bar>i\<bar> \<le> 999999999 \<Longrightarrow> DATETIME_MIN \<le> t - i * DAY \<Longrightarrow> minus_days t i = Inr (t - i * DAY)"
  by (simp add: minus_days_def)

text \<open>One round of the loop, when the offset can be subtracted.\<close>

lemma loop_Cons:
  assumes "offsets_ok (i # is) w"
  shows "make_history_loop (i # is) cur w =
     (let cur' = max 100 (jitter cur (nth_draw (rng w) 0));
          w2 = advance (w\<lparr>rng := tl (rng w)\<rparr>)
      in case make_history_loop is cur' w2 of
           (Inl e, w3) \<Rightarrow> (Inl e, w3)
         | (Inr pts, w3) \<Rightarrow> (Inr (\<lparr>date = int (clock w) - i * DAY, point_price = cur'\<rparr> # pts), w3))"
  using assms
  by (simp add: rand_price_eq Let_def now_def offsets_ok_Cons minus_days_ok)

lemma loop_ok: "offsets_ok is w \<Longrightarrow> \<not> isl (fst (make_history_loop is cur w))"
proof (induction "is" arbitrary: cur w)
  case Nil show ?case by simp
next
  case (Cons i "is")
  from Cons.prems have "offsets_ok is (advance (w\<lparr>rng := tl (rng w)\<rparr>))"
    by (simp add: offsets_ok_Cons offsets_ok_step)
  from Cons.IH[OF this] show ?case
    by (simp add: loop_Cons[OF Cons.prems] Let_def case_prod_beta sum.case_eq_if
        del: make_history_loop.simps(2))
qed

lemma loop_Cons_pts:
  assumes "offsets_ok (i # is) w"
  shows "projr (fst (make_history_loop (i # is) cur w)) =
     \<lparr>date = int (clock w) - i * DAY, point_price = max 100 (jitter cur (nth_draw (rng w) 0))\<rparr> #
     projr (fst (make_history_loop is (max 100 (jitter cur (nth_draw (rng w) 0)))
                   (advance (w\<lparr>rng := tl (rng w)\<rparr>))))"
proof -
  from assms have "offsets_ok is (advance (w\<lparr>rng := tl (rng w)\<rparr>))"
    by (simp add: offsets_ok_Cons offsets_ok_step)
  from loop_ok[OF this] show ?thesis
    by (simp add: loop_Cons[OF assms] Let_def case_prod_beta sum.case_eq_if
        del: make_history_loop.simps(2))
qed

lemma loop_Cons_snd:
  assumes "offsets_ok (i # is) w"
  shows "snd (make_history_loop (i # is) cur w) =
     snd (make_history_loop is (max 100 (jitter cur (nth_draw (rng w) 0)))
            (advance (w\<lparr>rng := tl (rng w)\<rparr>)))"
  by (simp add: loop_Cons[OF assms] Let_def case_prod_beta sum.case_eq_if
        del: make_history_loop.simps(2))

lemma offsets_ok_tail: "offsets_ok (i # is) w \<Longrightarrow> offsets_ok is (advance (w\<lparr>rng := tl (rng w)\<rparr>))"
  by (simp add: offsets_ok_Cons offsets_ok_step)

lemma loop_length:
  "offsets_ok is w \<Longrightarrow> length (projr (fst (make_history_loop is cur w))) = length is"
  by (induction "is" arbitrary: cur w)
     (simp_all add: loop_Cons_pts offsets_ok_tail del: make_history_loop.simps(2))

lemma loop_floor:
  "offsets_ok is w \<Longrightarrow> p \<in> set (projr (fst (make_history_loop is cur w))) \<Longrightarrow> 100 \<le> point_price p"
proof (induction "is" arbitrary: cur w)
  case Nil
  then show ?case by simp
next
  case (Cons i "is")
  note ok2 = offsets_ok_tail[OF Cons.prems(1)]
  from Cons.prems(2) Cons.IH[OF ok2] show ?case
    by (auto simp: loop_Cons_pts[OF Cons.prems(1)] simp del: make_history_loop.simps(2))
qed

lemma loop_rng:
  "offsets_ok is w \<Longrightarrow> rng (snd (make_history_loop is cur w)) = drop (length is) (rng w)"
  by (induction "is" arbitrary: cur w)
     (simp_all add: loop_Cons_snd offsets_ok_tail advance_rng drop_Suc del: make_history_loop.simps(2))

lemma loop_next_oid:
  "offsets_ok is w \<Longrightarrow> next_oid (snd (make_history_loop is cur w)) = next_oid w"
  by (induction "is" arbitrary: cur w)
     (simp_all add: loop_Cons_snd offsets_ok_tail advance_next_oid del: make_history_loop.simps(2))

lemma loop_dates:
  "offsets_ok is w \<Longrightarrow> p \<in> set (projr (fst (make_history_loop is cur w))) \<Longrightarrow>
   \<exists>i\<in>set is. int (clock w) - i * DAY \<le> date p"
proof (induction "is" arbitrary: cur w)
  case Nil
  then show ?case by simp
next
  case (Cons i "is")
  define w2 where "w2 = advance (w\<lparr>rng := tl (rng w)\<rparr>)"
  define c where "c = max 100 (jitter cur (nth_draw (rng w) 0))"
  have ok2: "offsets_ok is w2" unfolding w2_def by (rule offsets_ok_tail[OF Cons.prems(1)])
  have c2: "clock w \<le> clock w2"
    using advance_clock[of "w\<lparr>rng := tl (rng w)\<rparr>"] by (simp add: w2_def)
  from Cons.prems(2)
  have "p = \<lparr>date = int (clock w) - i * DAY, point_price = c\<rparr> \<or>
        p \<in> set (projr (fst (make_history_loop is c w2)))"
    by (simp add: loop_Cons_pts[OF Cons.prems(1)] w2_def c_def del: make_history_loop.simps(2))
  then show ?case
  proof
    assume "p = \<lparr>date = int (clock w) - i * DAY, point_price = c\<rparr>"
    then show ?thesis by simp
  next
    assume "p \<in> set (projr (fst (make_history_loop is c w2)))"
    from Cons.IH[OF ok2 this] obtain j where "j \<in> set is" "int (clock w2) - j * DAY \<le> date p"
      by blast
    then show ?thesis using c2 by force
  qed
qed

lemma loop_sorted:
  "offsets_ok is w \<Longrightarrow> sorted_wrt (\<lambda>a b. b < a) is \<Longrightarrow>
   sorted_wrt (\<lambda>a b. date a < date b) (projr (fst (make_history_loop is cur w)))"
proof (induction "is" arbitrary: cur w)
  case Nil
  then show ?case by simp
next
  case (Cons i "is")
  define w2 where "w2 = advance (w\<lparr>rng := tl (rng w)\<rparr>)"
  define c where "c = max 100 (jitter cur (nth_draw (rng w) 0))"
  have ok2: "offsets_ok is w2" unfolding w2_def by (rule offsets_ok_tail[OF Cons.prems(1)])
  have c2: "clock w \<le> clock w2"
    using advance_clock[of "w\<lparr>rng := tl (rng w)\<rparr>"] by (simp add: w2_def)
  have tail: "sorted_wrt (\<lambda>a b. date a < date b) (projr (fst (make_history_loop is c w2)))"
    using Cons.IH[OF ok2, of c] Cons.prems(2) by simp
  have hd: "int (clock w) - i * DAY < date p"
    if "p \<in> set (projr (fst (make_history_loop is c w2)))" for p
  proof -
    from loop_dates[OF ok2 that] obtain j where j: "j \<in> set is" "int (clock w2) - j * DAY \<le> date p"
      by blast
    with Cons.prems(2) have "j < i" by auto
    then have "j * DAY < i * DAY" by (simp add: DAY_def)
    with j c2 show ?thesis by linarith
  qed
  show ?case
    using tail hd
    by (simp add: loop_Cons_pts[OF Cons.prems(1)] w2_def c_def del: make_history_loop.simps(2))
qed

lemma range_down_sorted: "sorted_wrt (\<lambda>a b. b < a) (range_down days)"
  unfolding range_down_def by (simp add: sorted_wrt_rev)

lemma range_down_length: "0 \<le> days \<Longrightarrow> length (range_down days) = nat (days + 1)"
  by (simp add: range_down_def)

lemma range_down_Cons: "0 \<le> days \<Longrightarrow> range_down days = days # range_down (days - 1)"
  by (simp add: range_down_def upto_rec2)

lemma range_down_offsets_ok:
  assumes "days \<le> 999999999" and "DATETIME_MIN \<le> int (clock w) - days * DAY"
  shows "offsets_ok (range_down days) w"
proof -
  have "\<bar>i\<bar> \<le> 999999999 \<and> DATETIME_MIN \<le> int (clock w) - i * DAY" if "i \<in> set (range_down days)" for i
  proof -
    from that have i: "0 \<le> i" "i \<le> days" by (simp_all add: range_down_def)
    then have "i * DAY \<le> days * DAY" by (simp add: DAY_def)
    with i assms show ?thesis by linarith
  qed
  then show ?thesis by (simp add: offsets_ok_def list_all_iff)
qed

lemma loop_walk:
  "offsets_ok is w \<Longrightarrow> k < length is \<Longrightarrow>
   point_price (projr (fst (make_history_loop is cur w)) ! k) =
     max 100 (jitter (if k = 0 then cur
                      else point_price (projr (fst (make_history_loop is cur w)) ! (k - 1)))
                (nth_draw (rng w) k))"
proof (induction "is" arbitrary: cur w k)
  case Nil
  then show ?case by simp
next
  case (Cons i "is")
  define w2 where "w2 = advance (w\<lparr>rng := tl (rng w)\<rparr>)"
  define c where "c = max 100 (jitter cur (nth_draw (rng w) 0))"
  have ok2: "offsets_ok is w2" unfolding w2_def by (rule offsets_ok_tail[OF Cons.prems(1)])
  have g: "rng w2 = tl (rng w)" by (simp add: w2_def advance_rng)
  have e: "projr (fst (make_history_loop (i # is) cur w)) =
             \<lparr>date = int (clock w) - i * DAY, point_price = c\<rparr> #
             projr (fst (make_history_loop is c w2))"
    by (simp add: loop_Cons_pts[OF Cons.prems(1)] w2_def c_def del: make_history_loop.simps(2))
  show ?case
  proof (cases k)
    case 0
    then show ?thesis unfolding e by (simp add: c_def)
  next
    case (Suc k')
    then have "k' < length is" using Cons.prems(2) by simp
    from Cons.IH[OF ok2 this, of c] g
    have "point_price (projr (fst (make_history_loop is c w2)) ! k') =
            max 100 (jitter (if k' = 0 then c
                             else point_price (projr (fst (make_history_loop is c w2)) ! (k' - 1)))
                       (nth_draw (rng w) (Suc k')))"
      by (simp add: nth_draw_tl)
    then show ?thesis unfolding e using Suc by (cases k') simp_all
  qed
qed

text \<open>The first date of the series is the earliest: when it is before year 1, the call raises.\<close>

lemma make_history_too_far:
  assumes "0 \<le> days" and "int (clock w) - days * DAY < DATETIME_MIN"
  shows "fst (make_history base days w) = Inl OverflowError"
  using assms
  by (simp add: make_history_def range_down_Cons[OF assms(1)] rand_price_eq now_def
      minus_days_def Let_def)

text \<open>
  C2, as the claim states it, fails: on 4 November 2026, 800000 days back is before
  1 January of year 1, the first date that \<^verbatim>\<open>datetime\<close> holds, and
  \<open>make_history\<close> raises \<^verbatim>\<open>OverflowError\<close> instead of returning 800001 points.
\<close>

theorem make_history_overflow:
  "(0::int) \<le> 800000 \<and> fst (make_history 1000 800000 w0) = Inl OverflowError"
proof -
  have r: "range_down 800000 = 800000 # range_down 799999"
    using range_down_Cons[of 800000] by simp
  show ?thesis
    by (simp add: make_history_def r rand_price_eq now_def minus_days_def w0_def DAY_def
        DATETIME_MIN_def Let_def)
qed

text \<open>
  C2, amended. For every \<open>days \<ge> 0\<close> such that the day \<open>days\<close> days before the current
  time is a date of \<^verbatim>\<open>datetime\<close> (not before 1 January of year 1, and at most
  999999999 days back), \<open>make_history base days\<close> returns \<open>days + 1\<close> points, in
  strictly increasing date order (oldest first); every price is at least 100, and the
  price of each point is the jitter (\<^verbatim>\<open>rand_price\<close>) of the price of the point before
  it (of \<open>base\<close> for the first point), floored at 100, for the next value of the random
  generator.
\<close>

theorem make_history_points:
  assumes "0 \<le> days" and "days \<le> 999999999"
      and "DATETIME_MIN \<le> int (clock w) - days * DAY"
  shows "\<exists>pts w'. make_history base days w = (Inr pts, w') \<and>
     length pts = nat (days + 1) \<and>
     sorted_wrt (\<lambda>a b. date a < date b) pts \<and>
     (\<forall>p \<in> set pts. 100 \<le> point_price p) \<and>
     (\<forall>k < length pts. point_price (pts ! k) =
        max 100 (jitter (if k = 0 then base else point_price (pts ! (k - 1))) (nth_draw (rng w) k)))"
proof -
  let ?r = "make_history_loop (range_down days) base w"
  let ?pts = "projr (fst ?r)"
  have ok: "offsets_ok (range_down days) w" using assms(2,3) by (rule range_down_offsets_ok)
  have res: "make_history base days w = (Inr ?pts, snd ?r)"
    using loop_ok[OF ok, of base] by (cases ?r) (auto simp: make_history_def)
  have len: "length ?pts = nat (days + 1)"
    using assms(1) by (simp only: loop_length[OF ok] range_down_length)
  have srt: "sorted_wrt (\<lambda>a b. date a < date b) ?pts"
    by (rule loop_sorted[OF ok range_down_sorted])
  have flo: "\<forall>p \<in> set ?pts. 100 \<le> point_price p"
    using loop_floor[OF ok] by blast
  have wlk: "\<forall>k < length ?pts. point_price (?pts ! k) =
        max 100 (jitter (if k = 0 then base else point_price (?pts ! (k - 1))) (nth_draw (rng w) k))"
  proof (intro allI impI)
    fix k assume "k < length ?pts"
    then have "k < length (range_down days)" by (simp only: loop_length[OF ok])
    with ok show "point_price (?pts ! k) =
        max 100 (jitter (if k = 0 then base else point_price (?pts ! (k - 1))) (nth_draw (rng w) k))"
      by (rule loop_walk)
  qed
  from res len srt flo wlk show ?thesis by blast
qed

theorem make_history_points_witness:
  "(0::int) \<le> 2 \<and> (2::int) \<le> 999999999 \<and> DATETIME_MIN \<le> int (clock w0) - 2 * DAY \<and>
   (\<exists>pts w'. make_history 1000 2 w0 = (Inr pts, w') \<and> length pts = 3 \<and>
      sorted_wrt (\<lambda>a b. date a < date b) pts \<and> list_all (\<lambda>p. 100 \<le> point_price p) pts)"
proof -
  have h1: "(0::int) \<le> 2" and h2: "(2::int) \<le> 999999999" by simp_all
  have h3: "DATETIME_MIN \<le> int (clock w0) - 2 * DAY"
    by (simp add: DATETIME_MIN_def w0_def DAY_def)
  have n: "nat (2 + 1) = 3" by simp
  from make_history_points[OF h1 h2 h3, of 1000, unfolded n] h1 h2 h3
  show ?thesis by (simp only: list_all_iff) blast
qed

section \<open>Resolution against a store that already holds the data\<close>

lemma normalize_example: "normalize '' iPhone   15 '' = ''iphone 15''"
  by (simp add: normalize_def split_ws_def strip_def lower_def lower_char_def is_space_def)

text \<open>
  C1. When the store holds at least one price entry for the product's identifier (and
  the read succeeds), \<open>find_or_generate_prices\<close> returns exactly the stored entries of
  that product, and neither the store nor the world changes: nothing is written, no
  random value is drawn. Whatever the state of the random generator and the clock, a
  resolve against the same store returns the same entries.
\<close>

theorem resolve_persisted:
  assumes "p_id product_doc = Some pid"
      and "FindPriceEntries \<notin> set (broken s)"
      and "filter (\<lambda>e. product_id e = Some pid) (priceentry s) \<noteq> []"
  shows "find_or_generate_prices product_doc (Some s) w =
           (Inr (filter (\<lambda>e. product_id e = Some pid) (priceentry s)), Some s, w) \<and>
         (\<forall>w2. find_or_generate_prices product_doc (Some s) w2 =
           (Inr (filter (\<lambda>e. product_id e = Some pid) (priceentry s)), Some s, w2))"
  using assms by (simp add: find_or_generate_prices_def find_priceentry_def)

theorem resolve_persisted_witness:
  "p_id pd0 = Some 7 \<and> FindPriceEntries \<notin> set (broken s0) \<and>
   filter (\<lambda>e. product_id e = Some 7) (priceentry s0) \<noteq> [] \<and>
   find_or_generate_prices pd0 (Some s0) w0 = (Inr [e1, e2], Some s0, w0)"
proof -
  have a: "p_id pd0 = Some 7" by (simp add: pd0_def)
  have b: "FindPriceEntries \<notin> set (broken s0)" by (simp add: s0_def)
  have f: "filter (\<lambda>e. product_id e = Some 7) (priceentry s0) = [e1, e2]"
    by (simp add: s0_def e1_def e2_def)
  then have c: "filter (\<lambda>e. product_id e = Some 7) (priceentry s0) \<noteq> []" by simp
  from resolve_persisted[OF a b c, of w0] f
  have "find_or_generate_prices pd0 (Some s0) w0 = (Inr [e1, e2], Some s0, w0)" by simp
  with a b c show ?thesis by blast
qed

text \<open>
  C6. When a stored product has the normalized name of the query (and the store handle
  can be tested and the lookup succeeds), \<open>ensure_product_in_db\<close> returns a stored product with that normalized name
  as it is stored, and neither the store nor the world changes: no field is updated, no
  product is inserted, no price entry is seeded.
\<close>

theorem ensure_existing:
  assumes "TruthValue \<notin> set (broken s)" and "FindOneProduct \<notin> set (broken s)"
      and "\<exists>p \<in> set (product s). p_normalized_name p = normalize name"
  shows "\<exists>existing \<in> set (product s). p_normalized_name existing = normalize name \<and>
           ensure_product_in_db name brand category (Some s) w = (Inr existing, Some s, w)"
proof -
  from assms(3) obtain existing where
    f: "List.find (\<lambda>p. p_normalized_name p = normalize name) (product s) = Some existing"
    by (cases "List.find (\<lambda>p. p_normalized_name p = normalize name) (product s)")
       (auto simp: find_None_iff)
  then have "existing \<in> set (product s)" "p_normalized_name existing = normalize name"
    by (auto simp: find_Some_iff)
  moreover have "ensure_product_in_db name brand category (Some s) w = (Inr existing, Some s, w)"
    using assms(1,2) f by (simp add: ensure_product_in_db_def find_one_product_def Let_def)
  ultimately show ?thesis by blast
qed

theorem ensure_existing_witness:
  "TruthValue \<notin> set (broken s0) \<and> FindOneProduct \<notin> set (broken s0) \<and>
   list_ex (\<lambda>p. p_normalized_name p = normalize '' iPhone   15 '') (product s0) \<and>
   list_ex (\<lambda>existing. p_normalized_name existing = normalize '' iPhone   15 '' \<and>
       ensure_product_in_db '' iPhone   15 '' None None (Some s0) w0 = (Inr existing, Some s0, w0))
     (product s0)"
proof -
  have t: "TruthValue \<notin> set (broken s0)" by (simp add: s0_def)
  have a: "FindOneProduct \<notin> set (broken s0)" by (simp add: s0_def)
  have b: "\<exists>p \<in> set (product s0). p_normalized_name p = normalize '' iPhone   15 ''"
    by (simp add: s0_def pd0_def normalize_example)
  from ensure_existing[OF t a b, of None None w0] t a b show ?thesis
    by (simp only: list_ex_iff) blast
qed

section \<open>The search endpoint\<close>

lemma in_range_iff:
  "in_range price_min price_max v \<longleftrightarrow>
     (case price_min of None \<Rightarrow> True | Some lo \<Rightarrow> lo \<le> v) \<and>
     (case price_max of None \<Rightarrow> True | Some hi \<Rightarrow> v \<le> hi)"
  by (auto simp: in_range_def split: option.splits)

lemma filter_prices_eq:
  "apply_price_range price_min price_max found =
   filter (\<lambda>p. in_range price_min price_max (price p)) found"
  by (auto simp: in_range_def apply_price_range_def)

lemma build_platforms_ok:
  "\<forall>p \<in> set ps. rating_ok (rating p) \<Longrightarrow> build_platforms ps = Inr (map to_PlatformPrice ps)"
  by (induction ps) simp_all

lemma build_platforms_bad:
  "\<exists>p \<in> set ps. \<not> rating_ok (rating p) \<Longrightarrow> build_platforms ps = Inl ValidationError"
  by (induction ps) (auto split: sum.splits)

text \<open>The response that \<open>search_products\<close> assembles, and the count it records.\<close>

lemma search_products_success:
  assumes ens: "ensure_product_in_db q brand category db w = (Inr product_doc, db1, w1)"
      and fnd: "find_or_generate_prices product_doc db1 w1 = (Inr found, db2, w2)"
      and ok: "\<forall>p \<in> set (filter (\<lambda>p. in_range price_min price_max (price p)) found). rating_ok (rating p)"
  shows "search_products q category brand price_min price_max db w =
     (let pps = map to_PlatformPrice (filter (\<lambda>p. in_range price_min price_max (price p)) found);
          w3 = snd (new_ObjectId w2)
      in (Inr \<lparr>query = q,
               results = [\<lparr>r_id = (case p_id product_doc of Some i \<Rightarrow> i | None \<Rightarrow> next_oid w2),
                           r_name = p_name product_doc, r_brand = p_brand product_doc,
                           r_category = Some (p_category product_doc),
                           r_image = Some (p_image product_doc), r_platforms = pps\<rparr>],
               filters = \<lparr>f_category = category, f_brand = brand,
                           f_price_min = price_min, f_price_max = price_max\<rparr>,
               generated_at = int (clock w3)\<rparr>,
          persist_search_record q brand category price_min price_max (length pps) db2 (snd (now w3))))"
proof -
  have b: "build_platforms (filter (\<lambda>p. in_range price_min price_max (price p)) found) =
        Inr (map to_PlatformPrice (filter (\<lambda>p. in_range price_min price_max (price p)) found))"
    using ok by (rule build_platforms_ok)
  obtain t w4 where n: "now (snd (new_ObjectId w2)) = (t, w4)" by force
  then have t: "t = int (clock (snd (new_ObjectId w2)))" using now_fst[of "snd (new_ObjectId w2)"] by simp
  obtain db3 w5 where p: "persist_search_record q brand category price_min price_max
      (length (filter (\<lambda>p. in_range price_min price_max (price p)) found)) db2 w4 = (db3, w5)" by force
  show ?thesis
    using b n t p by (simp add: search_products_def ens fnd filter_prices_eq Let_def new_ObjectId_def)
qed

lemma search_products_ensure_fails:
  "ensure_product_in_db q brand category db w = (Inl e, db1, w1) \<Longrightarrow>
   search_products q category brand price_min price_max db w = (Inl e, db1, w1)"
  by (simp add: search_products_def)

lemma search_products_find_fails:
  "ensure_product_in_db q brand category db w = (Inr product_doc, db1, w1) \<Longrightarrow>
   find_or_generate_prices product_doc db1 w1 = (Inl e, db2, w2) \<Longrightarrow>
   search_products q category brand price_min price_max db w = (Inl e, db2, w2)"
  by (simp add: search_products_def)

lemma search_products_invalid:
  "ensure_product_in_db q brand category db w = (Inr product_doc, db1, w1) \<Longrightarrow>
   find_or_generate_prices product_doc db1 w1 = (Inr found, db2, w2) \<Longrightarrow>
   build_platforms (apply_price_range price_min price_max found) = Inl e \<Longrightarrow>
   search_products q category brand price_min price_max db w = (Inl e, db2, snd (new_ObjectId w2))"
  by (simp add: search_products_def Let_def split: prod.splits)

text \<open>Product and price resolution leave the search log and the faults of the store alone.\<close>

lemma ensure_frame:
  assumes "ensure_product_in_db name brand category (Some s) w = (r, db', w')"
  shows "\<exists>s'. db' = Some s' \<and> searchrecord s' = searchrecord s \<and> broken s' = broken s"
  using assms
  by (auto simp: ensure_product_in_db_def find_one_product_def insert_one_product_def
        insert_many_priceentry_def Let_def
      split: sum.splits option.splits prod.splits if_splits)

lemma find_frame:
  assumes "find_or_generate_prices product_doc (Some s) w = (r, db', w')"
  shows "\<exists>s'. db' = Some s' \<and> searchrecord s' = searchrecord s \<and> broken s' = broken s"
  using assms
  by (auto simp: find_or_generate_prices_def find_priceentry_def insert_many_priceentry_def
      split: sum.splits option.splits prod.splits if_splits)

lemma persist_ok:
  "CreateSearchRecord \<notin> set (broken s) \<Longrightarrow>
   persist_search_record q brand category price_min price_max n (Some s) w =
     (Some (s\<lparr>searchrecord := searchrecord s @
        [\<lparr>sr_query = q, sr_brand = brand, sr_category = category, sr_price_min = price_min,
          sr_price_max = price_max, sr_results_count = n, sr_created_at = int (clock w)\<rparr>]\<rparr>),
      snd (now w))"
  by (cases "now w")
     (use now_fst[of w] in \<open>simp add: persist_search_record_def create_document_searchrecord_def\<close>)

lemma persist_broken:
  "CreateSearchRecord \<in> set (broken s) \<Longrightarrow>
   persist_search_record q brand category price_min price_max n (Some s) w = (Some s, w)"
  by (simp add: persist_search_record_def create_document_searchrecord_def)

text \<open>The example store: the product is found, and its two entries are returned.\<close>

lemma ens0: "ensure_product_in_db ''iPhone 15'' None None (Some s0) w0 = (Inr pd0, Some s0, w0)"
  by (simp add: ensure_product_in_db_def find_one_product_def s0_def pd0_def
        normalize_def split_ws_def strip_def lower_def lower_char_def is_space_def Let_def)

lemma fnd0: "find_or_generate_prices pd0 (Some s0) w0 = (Inr [e1, e2], Some s0, w0)"
  by (simp add: find_or_generate_prices_def find_priceentry_def s0_def pd0_def e1_def e2_def)

lemma ok0: "\<forall>p \<in> set [e1, e2]. rating_ok (rating p)"
  by (simp add: e1_def e2_def rating_ok_def)

text \<open>
  C3. When product and price resolution succeed and the resolved entries within the
  bounds are valid price entries (a rating, if any, in \<open>[0, 5]\<close>), the search returns a
  response with exactly one result. Its platform list holds, in their order, exactly
  the resolved entries whose price lies within the inclusive bounds (an absent bound
  imposes no constraint), each with its platform, price, currency, URL, rating,
  delivery, update time and history; so every returned price lies within the bounds.
  The result carries the identifier, name, brand, category and image of the product,
  also when the platform list is empty.
\<close>

theorem search_price_filter:
  assumes ens: "ensure_product_in_db q brand category db w = (Inr product_doc, db1, w1)"
      and fnd: "find_or_generate_prices product_doc db1 w1 = (Inr found, db2, w2)"
      and ok: "\<forall>p \<in> set found.
                 (case price_min of None \<Rightarrow> True | Some lo \<Rightarrow> lo \<le> price p) \<and>
                 (case price_max of None \<Rightarrow> True | Some hi \<Rightarrow> price p \<le> hi) \<longrightarrow>
                 rating_ok (rating p)"
  shows "\<exists>resp db3 w3 r.
     search_products q category brand price_min price_max db w = (Inr resp, db3, w3) \<and>
     results resp = [r] \<and>
     r_platforms r =
       map (\<lambda>p. \<lparr>platform = platform p, price = price p, currency = currency p, url = url p,
                  rating = rating p, delivery = delivery p, last_updated = last_updated p,
                  history = history p\<rparr>)
         (filter (\<lambda>p. (case price_min of None \<Rightarrow> True | Some lo \<Rightarrow> lo \<le> price p) \<and>
                       (case price_max of None \<Rightarrow> True | Some hi \<Rightarrow> price p \<le> hi)) found) \<and>
     (\<forall>pp \<in> set (r_platforms r).
        (case price_min of None \<Rightarrow> True | Some lo \<Rightarrow> lo \<le> price pp) \<and>
        (case price_max of None \<Rightarrow> True | Some hi \<Rightarrow> price pp \<le> hi)) \<and>
     r_id r = (case p_id product_doc of Some i \<Rightarrow> i | None \<Rightarrow> next_oid w2) \<and>
     r_name r = p_name product_doc \<and> r_brand r = p_brand product_doc \<and>
     r_category r = Some (p_category product_doc) \<and> r_image r = Some (p_image product_doc)"
proof -
  have f: "(\<lambda>p. in_range price_min price_max (price p)) =
        (\<lambda>p. (case price_min of None \<Rightarrow> True | Some lo \<Rightarrow> lo \<le> price p) \<and>
                     (case price_max of None \<Rightarrow> True | Some hi \<Rightarrow> price p \<le> hi))"
    by (simp add: in_range_iff)
  have ok': "\<forall>p \<in> set (filter (\<lambda>p. in_range price_min price_max (price p)) found). rating_ok (rating p)"
    using ok by (simp add: f)
  obtain db3 w5 where p: "persist_search_record q brand category price_min price_max
      (length (map to_PlatformPrice (filter (\<lambda>p. in_range price_min price_max (price p)) found)))
      db2 (snd (now (snd (new_ObjectId w2)))) = (db3, w5)" by force
  have t: "to_PlatformPrice =
        (\<lambda>p. \<lparr>platform = platform p, price = price p, currency = currency p, url = url p,
                  rating = rating p, delivery = delivery p, last_updated = last_updated p,
                  history = history p\<rparr>)"
    by (rule ext) (simp add: to_PlatformPrice_def PlatformPrice.truncate_def)
  show ?thesis
    using search_products_success[OF ens fnd ok', unfolded Let_def p]
    by (auto simp add: f t split: option.splits)
qed

theorem search_price_filter_witness:
  "ensure_product_in_db ''iPhone 15'' None None (Some s0) w0 = (Inr pd0, Some s0, w0) \<and>
   find_or_generate_prices pd0 (Some s0) w0 = (Inr [e1, e2], Some s0, w0) \<and>
   list_all (\<lambda>p. rating_ok (rating p)) [e1, e2] \<and>
   (\<exists>resp db3 w3 r.
      search_products ''iPhone 15'' None None (Some 1000) (Some 2000) (Some s0) w0 = (Inr resp, db3, w3) \<and>
      results resp = [r] \<and> map platform (r_platforms r) = [''Amazon''] \<and>
      map price (r_platforms r) = [1500] \<and> r_id r = 7 \<and> r_name r = ''iPhone 15'')"
proof -
  have f: "filter (\<lambda>p. (case Some (1000::real) of None \<Rightarrow> True | Some lo \<Rightarrow> lo \<le> price p) \<and>
                     (case Some (2000::real) of None \<Rightarrow> True | Some hi \<Rightarrow> price p \<le> hi)) [e1, e2] = [e1]"
    by (simp add: e1_def e2_def)
  have ok: "\<forall>p \<in> set [e1, e2].
                 (case Some (1000::real) of None \<Rightarrow> True | Some lo \<Rightarrow> lo \<le> price p) \<and>
                 (case Some (2000::real) of None \<Rightarrow> True | Some hi \<Rightarrow> price p \<le> hi) \<longrightarrow>
                 rating_ok (rating p)"
    using ok0 by blast
  from search_price_filter[OF ens0 fnd0 ok, unfolded f]
  have "\<exists>resp db3 w3 r.
      search_products ''iPhone 15'' None None (Some 1000) (Some 2000) (Some s0) w0 = (Inr resp, db3, w3) \<and>
      results resp = [r] \<and> map platform (r_platforms r) = [''Amazon''] \<and>
      map price (r_platforms r) = [1500] \<and> r_id r = 7 \<and> r_name r = ''iPhone 15''"
    by (auto simp: pd0_def e1_def)
  moreover have "list_all (\<lambda>p. rating_ok (rating p)) [e1, e2]"
    using ok0 by (simp only: list_all_iff)
  ultimately show ?thesis using ens0 fnd0 by blast
qed

text \<open>
  C10. The \<open>results_count\<close> of the search record that is written is the number of
  entries that remain after the price range filter, not the number of resolved entries;
  in the example below it is 0 although two entries are resolved.
\<close>

theorem results_count_after_filter:
  assumes ens: "ensure_product_in_db q brand category db w = (Inr product_doc, db1, w1)"
      and fnd: "find_or_generate_prices product_doc db1 w1 = (Inr found, Some s2, w2)"
      and ok: "\<forall>p \<in> set found. rating_ok (rating p)"
      and wr: "CreateSearchRecord \<notin> set (broken s2)"
  shows "\<exists>resp s3 w3 rec.
     search_products q category brand price_min price_max db w = (Inr resp, Some s3, w3) \<and>
     searchrecord s3 = searchrecord s2 @ [rec] \<and>
     sr_results_count rec = length
       (filter (\<lambda>p. (case price_min of None \<Rightarrow> True | Some lo \<Rightarrow> lo \<le> price p) \<and>
                     (case price_max of None \<Rightarrow> True | Some hi \<Rightarrow> price p \<le> hi)) found)"
proof -
  have ok': "\<forall>p \<in> set (filter (\<lambda>p. in_range price_min price_max (price p)) found). rating_ok (rating p)"
    using ok by simp
  have f: "(\<lambda>p. in_range price_min price_max (price p)) =
        (\<lambda>p. (case price_min of None \<Rightarrow> True | Some lo \<Rightarrow> lo \<le> price p) \<and>
                     (case price_max of None \<Rightarrow> True | Some hi \<Rightarrow> price p \<le> hi))"
    by (simp add: in_range_iff)
  show ?thesis
    using search_products_success[OF ens fnd ok', unfolded Let_def persist_ok[OF wr]]
    by (simp add: f)
qed

theorem results_count_after_filter_witness:
  "ensure_product_in_db ''iPhone 15'' None None (Some s0) w0 = (Inr pd0, Some s0, w0) \<and>
   find_or_generate_prices pd0 (Some s0) w0 = (Inr [e1, e2], Some s0, w0) \<and>
   list_all (\<lambda>p. rating_ok (rating p)) [e1, e2] \<and>
   CreateSearchRecord \<notin> set (broken s0) \<and>
   (\<exists>resp s3 w3 rec.
      search_products ''iPhone 15'' None None (Some 1) (Some 2) (Some s0) w0 = (Inr resp, Some s3, w3) \<and>
      searchrecord s3 = searchrecord s0 @ [rec] \<and> sr_results_count rec = 0)"
proof -
  have f: "filter (\<lambda>p. (case Some (1::real) of None \<Rightarrow> True | Some lo \<Rightarrow> lo \<le> price p) \<and>
                     (case Some (2::real) of None \<Rightarrow> True | Some hi \<Rightarrow> price p \<le> hi)) [e1, e2] = []"
    by (simp add: e1_def e2_def)
  have wr: "CreateSearchRecord \<notin> set (broken s0)" by (simp add: s0_def)
  from results_count_after_filter[OF ens0 fnd0 ok0 wr, where price_min = "Some 1" and price_max = "Some 2", unfolded f]
  have "\<exists>resp s3 w3 rec.
      search_products ''iPhone 15'' None None (Some 1) (Some 2) (Some s0) w0 = (Inr resp, Some s3, w3) \<and>
      searchrecord s3 = searchrecord s0 @ [rec] \<and> sr_results_count rec = 0"
    by simp
  moreover have "list_all (\<lambda>p. rating_ok (rating p)) [e1, e2]"
    using ok0 by (simp only: list_all_iff)
  ultimately show ?thesis using ens0 fnd0 wr by blast
qed

text \<open>
  Making the write of search records fail changes nothing in product and price
  resolution.
\<close>

lemma ensure_brk:
  "ensure_product_in_db name brand category (Some (brk s)) w =
     (case ensure_product_in_db name brand category (Some s) w of
        (r, db', w') \<Rightarrow> (r, map_option brk db', w'))"
  by (auto simp: ensure_product_in_db_def find_one_product_def insert_one_product_def
        insert_many_priceentry_def Let_def brk_def
      split: sum.splits option.splits prod.splits if_splits)

lemma find_brk:
  "find_or_generate_prices product_doc (Some (brk s)) w =
     (case find_or_generate_prices product_doc (Some s) w of
        (r, db', w') \<Rightarrow> (r, map_option brk db', w'))"
  by (auto simp: find_or_generate_prices_def find_priceentry_def insert_many_priceentry_def brk_def
      split: sum.splits option.splits prod.splits if_splits)

text \<open>
  C7. A search against a store whose search record write raises returns the same result
  (the same response, or the same error of the resolution) as the search against the
  same store when the write succeeds: the exception of the write is dropped.
\<close>

theorem search_record_failure_discarded:
  assumes "CreateSearchRecord \<notin> set (broken s)"
  shows "fst (search_products q category brand price_min price_max
                (Some (s\<lparr>broken := CreateSearchRecord # broken s\<rparr>)) w) =
         fst (search_products q category brand price_min price_max (Some s) w)"
proof -
  obtain r1 db1 w1 where ens: "ensure_product_in_db q brand category (Some s) w = (r1, db1, w1)"
    by (cases "ensure_product_in_db q brand category (Some s) w") auto
  from ensure_frame[OF ens] obtain s1 where s1: "db1 = Some s1" by blast
  have ens': "ensure_product_in_db q brand category (Some (brk s)) w = (r1, Some (brk s1), w1)"
    using ens s1 by (simp add: ensure_brk)
  show ?thesis
  proof (cases r1)
    case (Inl e)
    then show ?thesis using ens ens' by (simp add: search_products_def brk_def[symmetric])
  next
    case (Inr product_doc)
    obtain r2 db2 w2 where fnd: "find_or_generate_prices product_doc (Some s1) w1 = (r2, db2, w2)"
      by (cases "find_or_generate_prices product_doc (Some s1) w1") auto
    from find_frame[OF fnd] obtain s2 where s2: "db2 = Some s2" by blast
    have fnd': "find_or_generate_prices product_doc (Some (brk s1)) w1 = (r2, Some (brk s2), w2)"
      using fnd s2 by (simp add: find_brk)
    show ?thesis
      using ens ens' fnd fnd' Inr s1 s2
      by (simp add: search_products_def brk_def[symmetric] Let_def split: sum.splits prod.splits)
  qed
qed

theorem search_record_failure_discarded_witness:
  "CreateSearchRecord \<notin> set (broken s0) \<and>
   fst (search_products ''iPhone 15'' None None None None
          (Some (s0\<lparr>broken := CreateSearchRecord # broken s0\<rparr>)) w0) =
   fst (search_products ''iPhone 15'' None None None None (Some s0) w0)"
proof -
  have wr: "CreateSearchRecord \<notin> set (broken s0)" by (simp add: s0_def)
  from search_record_failure_discarded[OF wr] wr show ?thesis by blast
qed

text \<open>
  C4, as the claim states it, fails: when the product lookup raises, the request fails
  and the store holds no search record afterwards.
\<close>

theorem search_fails_without_record:
  "search_products ''tv'' None None None None (Some s_down) w0 = (Inl StoreError, Some s_down, w0) \<and>
   searchrecord s_down = []"
  by (simp add: search_products_def ensure_product_in_db_def find_one_product_def s_down_def)

text \<open>
  C4, amended. With a store configured, a search that returns a response has appended
  exactly one search record (with the query and the filters of the call) when the
  write of search records works, and none when that write fails; a search that fails
  (in product or price resolution, or in building the response) leaves the search
  records as they were.
\<close>

theorem search_record_once:
  "(case search_products q category brand price_min price_max (Some s) w of
      (r, db', w') \<Rightarrow>
        \<exists>s'. db' = Some s' \<and>
          (case r of
             Inl e \<Rightarrow> searchrecord s' = searchrecord s
           | Inr resp \<Rightarrow>
               if CreateSearchRecord \<in> set (broken s) then searchrecord s' = searchrecord s
               else \<exists>rec. searchrecord s' = searchrecord s @ [rec] \<and>
                      sr_query rec = q \<and> sr_brand rec = brand \<and> sr_category rec = category \<and>
                      sr_price_min rec = price_min \<and> sr_price_max rec = price_max))"
proof -
  obtain r1 db1 w1 where ens: "ensure_product_in_db q brand category (Some s) w = (r1, db1, w1)"
    by (cases "ensure_product_in_db q brand category (Some s) w") auto
  from ensure_frame[OF ens] obtain s1 where
    s1: "db1 = Some s1" "searchrecord s1 = searchrecord s" "broken s1 = broken s" by blast
  show ?thesis
  proof (cases r1)
    case (Inl e)
    then show ?thesis using search_products_ensure_fails[of q brand category "Some s" w e db1 w1] ens s1
      by simp
  next
    case (Inr product_doc)
    obtain r2 db2 w2 where fnd: "find_or_generate_prices product_doc db1 w1 = (r2, db2, w2)"
      by (cases "find_or_generate_prices product_doc db1 w1") auto
    from find_frame[OF fnd[unfolded s1(1)]] obtain s2 where
      s2: "db2 = Some s2" "searchrecord s2 = searchrecord s1" "broken s2 = broken s1" by blast
    show ?thesis
    proof (cases r2)
      case (Inl e)
      then show ?thesis
        using search_products_find_fails[of q brand category "Some s" w product_doc db1 w1 e db2 w2]
          ens Inr fnd s1 s2 by simp
    next
      case found: (Inr found)
      show ?thesis
      proof (cases "build_platforms (apply_price_range price_min price_max found)")
        case (Inl e)
        then show ?thesis
          using search_products_invalid[of q brand category "Some s" w product_doc db1 w1 found db2 w2
              price_min price_max e] ens Inr fnd found s1 s2 by simp
      next
        case pps: (Inr pps)
        have ok: "\<forall>p \<in> set (filter (\<lambda>p. in_range price_min price_max (price p)) found). rating_ok (rating p)"
          using pps build_platforms_bad[of "apply_price_range price_min price_max found"]
          by (auto simp: filter_prices_eq)
        note e = search_products_success[OF ens[unfolded Inr] fnd[unfolded found] ok, unfolded Let_def]
        show ?thesis
        proof (cases "CreateSearchRecord \<in> set (broken s)")
          case True
          then have "CreateSearchRecord \<in> set (broken s2)" using s1 s2 by simp
          then show ?thesis using e True s1 s2 by (simp add: persist_broken)
        next
          case False
          then have "CreateSearchRecord \<notin> set (broken s2)" using s1 s2 by simp
          then show ?thesis using e False s1 s2 by (simp add: persist_ok)
        qed
      qed
    qed
  qed
qed

section \<open>Generated price entries\<close>

lemma tl_conv_drop: "tl xs = drop (Suc 0) xs"
  by (simp add: drop_Suc)

lemma range_down_14: "length (range_down 14) = 15"
  by (simp add: range_down_def)

text \<open>Fourteen days before any reading of the clock is a date: the history of an entry never raises.\<close>

lemma offsets_ok_14: "offsets_ok (range_down 14) w"
  by (rule range_down_offsets_ok) (simp_all add: DATETIME_MIN_def DAY_def)

lemma history14_ok: "\<not> isl (fst (make_history b 14 w))"
  unfolding make_history_def by (rule loop_ok[OF offsets_ok_14])

lemma make_history_rng: "rng (snd (make_history b 14 w)) = drop 15 (rng w)"
  by (simp add: make_history_def loop_rng[OF offsets_ok_14] range_down_14)

lemma seed_loop_ok: "\<not> isl (fst (seed_loop ps pid nrm base w))"
  by (induction ps arbitrary: w) (simp_all add: case_prod_beta sum.case_eq_if history14_ok)

lemma ephemeral_loop_ok: "\<not> isl (fst (ephemeral_loop ps base w))"
  by (induction ps arbitrary: w) (simp_all add: case_prod_beta sum.case_eq_if history14_ok)

lemmas gen_simps = case_prod_beta sum.case_eq_if history14_ok seed_loop_ok ephemeral_loop_ok

lemma seed_loop_platform: "map platform (projr (fst (seed_loop ps pid nrm base w))) = ps"
  by (induction ps arbitrary: w) (simp_all add: gen_simps)

lemma seed_loop_currency:
  "e \<in> set (projr (fst (seed_loop ps pid nrm base w))) \<Longrightarrow> currency e = ''INR''"
  by (induction ps arbitrary: w) (auto simp add: gen_simps)

lemma seed_loop_url:
  "map url (projr (fst (seed_loop ps pid nrm base w))) =
     map (\<lambda>p. Some (''https://'' @ host_of p @ ''.com/search?q='' @ nrm)) ps"
  by (induction ps arbitrary: w) (simp_all add: gen_simps)

lemma seed_loop_rng: "rng (snd (seed_loop ps pid nrm base w)) = drop (18 * length ps) (rng w)"
proof (induction ps arbitrary: w)
  case Nil
  show ?case by simp
next
  case (Cons p ps)
  show ?case
    by (simp add: gen_simps Cons.IH now_rng make_history_rng choice_eq uniform_eq rand_price_eq
        tl_conv_drop add.commute)
qed

lemma upt_shift: "[0..<Suc n] = 0 # map Suc [0..<n]"
  by (simp add: upt_conv_Cons map_Suc_upt del: upt_Suc)

lemma seed_loop_price:
  "map price (projr (fst (seed_loop ps pid nrm base w))) =
     map (\<lambda>k. jitter base (nth_draw (rng w) (18 * k))) [0..<length ps]"
proof (induction ps arbitrary: w)
  case Nil
  show ?case by simp
next
  case (Cons p ps)
  show ?case
    unfolding length_Cons upt_shift
    by (simp add: gen_simps Cons.IH now_rng make_history_rng choice_eq uniform_eq rand_price_eq
        tl_conv_drop nth_draw_drop comp_def del: upt_Suc)
qed

lemma ephemeral_loop_platform: "map platform (projr (fst (ephemeral_loop ps base w))) = ps"
  by (induction ps arbitrary: w) (simp_all add: gen_simps)

lemma ephemeral_loop_currency:
  "e \<in> set (projr (fst (ephemeral_loop ps base w))) \<Longrightarrow> currency e = ''INR''"
  by (induction ps arbitrary: w) (auto simp add: gen_simps)

lemma ephemeral_loop_url:
  "map url (projr (fst (ephemeral_loop ps base w))) =
     map (\<lambda>p. Some (''https://'' @ host_of p @ ''.com'')) ps"
  by (induction ps arbitrary: w) (simp_all add: gen_simps)

lemma ephemeral_loop_unstored:
  "e \<in> set (projr (fst (ephemeral_loop ps base w))) \<Longrightarrow>
   product_id e = None \<and> entry_created_at e = None \<and> entry_updated_at e = None"
  by (induction ps arbitrary: w) (auto simp add: gen_simps)

lemma ephemeral_loop_price:
  "map price (projr (fst (ephemeral_loop ps base w))) =
     map (\<lambda>k. jitter base (nth_draw (rng w) (18 * k))) [0..<length ps]"
proof (induction ps arbitrary: w)
  case Nil
  show ?case by simp
next
  case (Cons p ps)
  show ?case
    unfolding length_Cons upt_shift
    by (simp add: gen_simps Cons.IH now_rng make_history_rng choice_eq uniform_eq rand_price_eq
        tl_conv_drop nth_draw_drop comp_def del: upt_Suc)
qed

lemma PLATFORMS_length: "length PLATFORMS = 7"
  by (simp add: PLATFORMS_def)

text \<open>Seeding and the ephemeral generation never raise.\<close>

lemma seed_entries_ok:
  obtains ss ws where "seed_entries pid nrm w = (Inr ss, ws)"
    and "ss = projr (fst (seed_entries pid nrm w))"
proof -
  have "\<not> isl (fst (seed_entries pid nrm w))"
    by (simp add: seed_entries_def uniform_eq seed_loop_ok)
  then show ?thesis
    using that by (cases "seed_entries pid nrm w") (auto simp add: isl_def)
qed

lemma ephemeral_entries_ok:
  obtains out w1 where "ephemeral_entries w = (Inr out, w1)"
    and "out = projr (fst (ephemeral_entries w))"
proof -
  have "\<not> isl (fst (ephemeral_entries w))"
    by (simp add: ephemeral_entries_def uniform_eq ephemeral_loop_ok)
  then show ?thesis
    using that by (cases "ephemeral_entries w") (auto simp add: isl_def)
qed

lemma seed_entries_props:
  "map platform (projr (fst (seed_entries pid nrm w))) = PLATFORMS \<and>
   (\<forall>e \<in> set (projr (fst (seed_entries pid nrm w))). currency e = ''INR'') \<and>
   map price (projr (fst (seed_entries pid nrm w))) =
     map (\<lambda>k. jitter (uniform_of 499 49999 (nth_draw (rng w) 0)) (nth_draw (rng w) (1 + 18 * k))) [0..<7]"
  by (simp add: seed_entries_def uniform_eq seed_loop_platform seed_loop_currency seed_loop_price
      PLATFORMS_length nth_draw_tl)

lemma ephemeral_entries_props:
  "map platform (projr (fst (ephemeral_entries w))) = PLATFORMS \<and>
   (\<forall>e \<in> set (projr (fst (ephemeral_entries w))). currency e = ''INR'') \<and>
   map price (projr (fst (ephemeral_entries w))) =
     map (\<lambda>k. jitter (uniform_of 499 49999 (nth_draw (rng w) 0)) (nth_draw (rng w) (1 + 18 * k))) [0..<7]"
  by (simp add: ephemeral_entries_def uniform_eq ephemeral_loop_platform ephemeral_loop_currency
      ephemeral_loop_price PLATFORMS_length nth_draw_tl)

text \<open>
  C9. Whenever \<open>find_or_generate_prices\<close> generates entries (no store, no identifier,
  or no stored entry for the product and a working bulk insert), it returns one entry
  per platform of \<open>PLATFORMS\<close>, in that order, seven in all, each with currency
  \<open>INR\<close>; the price of the \<open>k\<close>-th entry is the jitter of one shared base price (the
  first value drawn, scaled to \<open>[499, 49999]\<close>).
\<close>

theorem generated_entries:
  assumes "db = None \<or> p_id product_doc = None \<or>
           (\<exists>s pid. db = Some s \<and> p_id product_doc = Some pid \<and> find_priceentry pid s = Inr [] \<and>
                    InsertManyPriceEntries \<notin> set (broken s))"
  shows "\<exists>es db' w'. find_or_generate_prices product_doc db w = (Inr es, db', w') \<and>
           map platform es = PLATFORMS \<and> length es = 7 \<and>
           (\<forall>e \<in> set es. currency e = ''INR'') \<and>
           map price es =
             map (\<lambda>k. jitter (uniform_of 499 49999 (nth_draw (rng w) 0)) (nth_draw (rng w) (1 + 18 * k)))
               [0..<7]"
proof -
  have len: "length es = 7" if "map platform es = PLATFORMS" for es :: "price_doc list"
    using that PLATFORMS_length by (metis length_map)
  consider (eph) "db = None \<or> p_id product_doc = None"
    | (seed) s pid where "db = Some s" "p_id product_doc = Some pid" "find_priceentry pid s = Inr []"
        "InsertManyPriceEntries \<notin> set (broken s)"
    using assms by auto
  then show ?thesis
  proof cases
    case eph
    obtain out w1 where e: "ephemeral_entries w = (Inr out, w1)"
      and out: "out = projr (fst (ephemeral_entries w))"
      by (rule ephemeral_entries_ok)
    have r: "find_or_generate_prices product_doc db w = (Inr out, db, w1)"
      using eph by (auto simp: find_or_generate_prices_def e split: option.splits)
    from ephemeral_entries_props[of w] len[of out] r show ?thesis
      unfolding out[symmetric] by auto
  next
    case seed
    obtain seeded w1 where e: "seed_entries pid (p_normalized_name product_doc) w = (Inr seeded, w1)"
      and seeded: "seeded = projr (fst (seed_entries pid (p_normalized_name product_doc) w))"
      by (rule seed_entries_ok)
    from seed_entries_props[of pid "p_normalized_name product_doc" w]
    have p: "map platform seeded = PLATFORMS" "\<forall>e \<in> set seeded. currency e = ''INR''"
      "map price seeded =
        map (\<lambda>k. jitter (uniform_of 499 49999 (nth_draw (rng w) 0)) (nth_draw (rng w) (1 + 18 * k))) [0..<7]"
      unfolding seeded by auto
    from p(1) have ne: "seeded \<noteq> []" by (auto simp: PLATFORMS_def)
    have r: "find_or_generate_prices product_doc db w =
        (Inr seeded, Some (s\<lparr>priceentry := priceentry s @ seeded\<rparr>), w1)"
      using seed ne by (simp add: find_or_generate_prices_def insert_many_priceentry_def e)
    from p len[of seeded] r show ?thesis by auto
  qed
qed

theorem generated_entries_witness:
  "find_priceentry 7 s1 = Inr [] \<and> InsertManyPriceEntries \<notin> set (broken s1) \<and>
   (\<exists>es db' w'. find_or_generate_prices pd0 (Some s1) w0 = (Inr es, db', w') \<and>
       map platform es = PLATFORMS \<and> length es = 7 \<and> list_all (\<lambda>e. currency e = ''INR'') es) \<and>
   (\<exists>es db' w'. find_or_generate_prices pd_new None w0 = (Inr es, db', w') \<and>
       map platform es = PLATFORMS \<and> length es = 7 \<and> list_all (\<lambda>e. currency e = ''INR'') es)"
proof -
  have a: "find_priceentry 7 s1 = Inr []" by (simp add: find_priceentry_def s1_def)
  have b: "InsertManyPriceEntries \<notin> set (broken s1)" by (simp add: s1_def)
  have c: "p_id pd0 = Some 7" by (simp add: pd0_def)
  have h1: "Some s1 = None \<or> p_id pd0 = None \<or>
           (\<exists>s pid. Some s1 = Some s \<and> p_id pd0 = Some pid \<and> find_priceentry pid s = Inr [] \<and>
                    InsertManyPriceEntries \<notin> set (broken s))"
    using a b c by blast
  have h2: "(None :: store option) = None \<or> p_id pd_new = None \<or>
           (\<exists>s pid. None = Some s \<and> p_id pd_new = Some pid \<and> find_priceentry pid s = Inr [] \<and>
                    InsertManyPriceEntries \<notin> set (broken s))"
    by simp
  from generated_entries[OF h1, of w0] generated_entries[OF h2, of w0] a b
  show ?thesis by (simp only: list_all_iff) blast
qed

text \<open>The ratings that the loops generate are valid ratings.\<close>

lemma round_half_even_bounds: "\<lfloor>y\<rfloor> \<le> round_half_even y \<and> round_half_even y \<le> \<lfloor>y\<rfloor> + 1"
  by (simp add: round_half_even_def Let_def)

lemma unit_of_bounds: "0 \<le> unit_of d \<and> unit_of d < 1"
  by (simp add: unit_of_def)

lemma generated_rating_ok: "rating_ok (Some (py_round (uniform_of (35 / 10) 5 d) 1))"
proof -
  let ?x = "uniform_of (35 / 10) 5 d"
  have x: "35 / 10 \<le> ?x \<and> ?x < 5" using unit_of_bounds[of d] by (simp add: uniform_of_def)
  then have a: "35 \<le> \<lfloor>?x * 10\<rfloor>" and b: "\<lfloor>?x * 10\<rfloor> \<le> 49" by (simp_all add: le_floor_iff floor_le_iff) 
  have "35 \<le> round_half_even (?x * 10) \<and> round_half_even (?x * 10) \<le> 50"
    using round_half_even_bounds[of "?x * 10"] a b by linarith
  then have "35 \<le> round_half_even (?x * 10 ^ 1) \<and> round_half_even (?x * 10 ^ 1) \<le> 50" by simp
  then have "35 \<le> (of_int (round_half_even (?x * 10 ^ 1)) :: real) \<and> (of_int (round_half_even (?x * 10 ^ 1)) :: real) \<le> 50"
    by (metis of_int_le_iff of_int_numeral)
  then show ?thesis by (simp add: rating_ok_def py_round_def)
qed

lemma generated_rating_ok_simp: "rating_ok (Some (py_round (uniform_of (7 / 2) 5 d) (Suc 0)))"
  using generated_rating_ok[of d] by simp

lemma seed_loop_rating_ok:
  "e \<in> set (projr (fst (seed_loop ps pid nrm base w))) \<Longrightarrow> rating_ok (rating e)"
  by (induction ps arbitrary: w)
     (auto simp add: gen_simps uniform_eq generated_rating_ok_simp)

lemma ephemeral_loop_rating_ok:
  "e \<in> set (projr (fst (ephemeral_loop ps base w))) \<Longrightarrow> rating_ok (rating e)"
  by (induction ps arbitrary: w)
     (auto simp add: gen_simps uniform_eq generated_rating_ok_simp)

lemma generated_ratings_ok:
  "(\<forall>e \<in> set (projr (fst (seed_entries pid nrm w))). rating_ok (rating e)) \<and>
   (\<forall>e \<in> set (projr (fst (ephemeral_entries w))). rating_ok (rating e))"
  by (auto simp add: seed_entries_def ephemeral_entries_def uniform_eq
      dest: seed_loop_rating_ok ephemeral_loop_rating_ok)

subsection \<open>The ephemeral path and the seeding\<close>

lemma loop_prices_rng:
  "offsets_ok is v \<Longrightarrow> offsets_ok is w \<Longrightarrow> rng v = rng w \<Longrightarrow>
   map point_price (projr (fst (make_history_loop is c v))) =
   map point_price (projr (fst (make_history_loop is c w)))"
proof (induction "is" arbitrary: c v w)
  case Nil
  show ?case by simp
next
  case (Cons i "is")
  have "rng (advance (v\<lparr>rng := tl (rng v)\<rparr>)) = rng (advance (w\<lparr>rng := tl (rng w)\<rparr>))"
    using Cons.prems(3) by (simp add: advance_rng)
  from Cons.IH[OF offsets_ok_tail[OF Cons.prems(1)] offsets_ok_tail[OF Cons.prems(2)] this] Cons.prems(3)
  show ?case
    by (simp add: loop_Cons_pts[OF Cons.prems(1)] loop_Cons_pts[OF Cons.prems(2)]
        del: make_history_loop.simps(2))
qed

lemma loops_same:
  "rng v = rng w \<Longrightarrow>
   list_all2 same_offer (projr (fst (ephemeral_loop ps base v)))
     (projr (fst (seed_loop ps pid nrm base w)))"
proof (induction ps arbitrary: v w)
  case Nil
  show ?case by simp
next
  case (Cons p ps)
  let ?pr = "jitter base (nth_draw (rng w) 0)"
  let ?v4 = "snd (now (snd (choice DELIVERIES (snd (uniform (35 / 10) 5 (snd (rand_price base v)))))))"
  let ?w4 = "snd (now (snd (choice DELIVERIES (snd (uniform (35 / 10) 5 (snd (rand_price base w)))))))"
  have r4: "rng ?v4 = rng ?w4"
    using Cons.prems by (simp add: now_rng choice_eq uniform_eq rand_price_eq)
  have h: "map point_price (projr (fst (make_history ?pr 14 ?v4))) =
           map point_price (projr (fst (make_history ?pr 14 ?w4)))"
    unfolding make_history_def by (rule loop_prices_rng[OF offsets_ok_14 offsets_ok_14 r4])
  have r5: "rng (snd (make_history ?pr 14 ?v4)) =
            rng (snd (now (snd (now (snd (make_history ?pr 14 ?w4))))))"
    using r4 by (simp add: make_history_rng now_rng)
  note ih = Cons.IH[OF r5]
  show ?case
    using Cons.prems h ih
    by (simp add: gen_simps same_offer_def rand_price_eq uniform_eq choice_eq)
qed

lemma seed_entries_nonempty: "projr (fst (seed_entries pid nrm w)) \<noteq> []"
proof
  assume "projr (fst (seed_entries pid nrm w)) = []"
  then have "map platform (projr (fst (seed_entries pid nrm w))) = []" by simp
  then show False using seed_entries_props[of pid nrm w] by (simp add: PLATFORMS_def)
qed

text \<open>A product that the store does not hold is inserted, and its price entries are seeded.\<close>

lemma ensure_new:
  assumes "broken s = []"
      and "List.find (\<lambda>p. p_normalized_name p = normalize name) (product s) = None"
  shows "\<exists>doc w'. ensure_product_in_db name brand category (Some s) w =
           (Inr doc, Some (s\<lparr>product := product s @ [doc],
              priceentry := priceentry s @
                projr (fst (seed_entries (next_oid w) (normalize name)
                      ((advance (advance (w\<lparr>rng := tl (rng w)\<rparr>)))\<lparr>next_oid := Suc (next_oid w)\<rparr>)))\<rparr>), w') \<and>
           p_id doc = Some (next_oid w) \<and> p_normalized_name doc = normalize name"
proof -
  let ?w4 = "(advance (advance (w\<lparr>rng := tl (rng w)\<rparr>)))\<lparr>next_oid := Suc (next_oid w)\<rparr>"
  obtain ss ws where e: "seed_entries (next_oid w) (normalize name) ?w4 = (Inr ss, ws)"
    and ss: "ss = projr (fst (seed_entries (next_oid w) (normalize name) ?w4))"
    by (rule seed_entries_ok)
  have ne: "ss \<noteq> []"
    unfolding ss by (rule seed_entries_nonempty)
  show ?thesis
    using assms ne
    by (simp add: ensure_product_in_db_def find_one_product_def Let_def choice_eq now_def
        insert_one_product_def insert_many_priceentry_def advance_next_oid e)
qed

lemma hd_url:
  assumes "map url es = map f ps" "ps = p # ps'"
  shows "url (hd es) = f p"
  using assms by (cases es) auto

text \<open>
  C5, as the claim states it, fails: for the platform Amazon the ephemeral path builds
  the URL \<open>https://amazon.com\<close>, the seeding of a new product builds
  \<open>https://amazon.com/search?q=iphone 15\<close>.
\<close>

theorem ephemeral_url_differs:
  "(\<exists>es w'. find_or_generate_prices pd_new None w0 = (Inr es, None, w') \<and>
       url (hd es) = Some ''https://amazon.com'') \<and>
   (\<exists>doc s' w'. ensure_product_in_db ''iPhone 15'' None None (Some s_empty) w0 = (Inr doc, Some s', w') \<and>
       url (hd (priceentry s')) = Some ''https://amazon.com/search?q=iphone 15'')"
proof -
  have host: "host_of ''Amazon'' = ''amazon''"
    by (simp add: host_of_def lower_def lower_char_def)
  have nrm: "normalize ''iPhone 15'' = ''iphone 15''"
    by (simp add: normalize_def split_ws_def strip_def lower_def lower_char_def is_space_def)
  have P: "PLATFORMS = ''Amazon'' # tl PLATFORMS" by (simp add: PLATFORMS_def)
  obtain out w1 where e: "ephemeral_entries w0 = (Inr out, w1)"
    and out: "out = projr (fst (ephemeral_entries w0))"
    by (rule ephemeral_entries_ok)
  have r: "find_or_generate_prices pd_new None w0 = (Inr out, None, w1)"
    by (simp add: find_or_generate_prices_def e)
  have "map url out = map (\<lambda>p. Some (''https://'' @ host_of p @ ''.com'')) PLATFORMS"
    unfolding out by (simp add: ephemeral_entries_def uniform_eq ephemeral_loop_url)
  from hd_url[OF this P] have u1: "url (hd out) = Some ''https://amazon.com''" by (simp add: host)
  have b: "broken s_empty = []" by (simp add: s_empty_def)
  have f: "List.find (\<lambda>p. p_normalized_name p = normalize ''iPhone 15'') (product s_empty) = None"
    by (simp add: s_empty_def)
  define w4 where "w4 = (advance (advance (w0\<lparr>rng := tl (rng w0)\<rparr>)))\<lparr>next_oid := Suc (next_oid w0)\<rparr>"
  from ensure_new[OF b f, of None None w0] obtain doc w' where
    en: "ensure_product_in_db ''iPhone 15'' None None (Some s_empty) w0 =
           (Inr doc, Some (s_empty\<lparr>product := product s_empty @ [doc],
              priceentry := priceentry s_empty @
                projr (fst (seed_entries (next_oid w0) (normalize ''iPhone 15'') w4))\<rparr>), w')"
    unfolding w4_def by blast
  have "map url (projr (fst (seed_entries (next_oid w0) ''iphone 15'' w4))) =
          map (\<lambda>p. Some (''https://'' @ host_of p @ ''.com/search?q='' @ ''iphone 15'')) PLATFORMS"
    by (simp add: seed_entries_def uniform_eq seed_loop_url)
  from hd_url[OF this P]
  have u2: "url (hd (projr (fst (seed_entries (next_oid w0) ''iphone 15'' w4)))) =
              Some ''https://amazon.com/search?q=iphone 15''"
    by (simp add: host)
  have "url (hd (priceentry (s_empty\<lparr>product := product s_empty @ [doc],
              priceentry := priceentry s_empty @
                projr (fst (seed_entries (next_oid w0) (normalize ''iPhone 15'') w4))\<rparr>))) =
        Some ''https://amazon.com/search?q=iphone 15''"
    using u2 by (simp add: s_empty_def nrm)
  with en r u1 show ?thesis by blast
qed

text \<open>
  C5, amended. When no store is configured or the product carries no identifier,
  \<open>find_or_generate_prices\<close> returns, and leaves the store handle as it is, a list of
  entries that are the same offers (platform, price, currency, rating, delivery, history
  prices) as the entries that the seeding produces from the same random generator. The
  URL of an entry is \<^verbatim>\<open>https://<host>.com\<close>, where the seeding appends
  \<^verbatim>\<open>/search?q=<normalized name>\<close>, and the entries carry no product identifier and no
  creation or update time.
\<close>

theorem ephemeral_like_seeding:
  assumes "db = None \<or> p_id product_doc = None"
  shows "\<exists>es w' ss ws. find_or_generate_prices product_doc db w = (Inr es, db, w') \<and>
           seed_entries pid nrm w = (Inr ss, ws) \<and>
           list_all2 same_offer es ss \<and>
           map url es = map (\<lambda>p. Some (''https://'' @ host_of p @ ''.com'')) PLATFORMS \<and>
           map url ss = map (\<lambda>p. Some (''https://'' @ host_of p @ ''.com/search?q='' @ nrm)) PLATFORMS \<and>
           (\<forall>e \<in> set es. product_id e = None \<and> entry_created_at e = None \<and> entry_updated_at e = None)"
proof -
  obtain out w1 where e: "ephemeral_entries w = (Inr out, w1)"
    and out: "out = projr (fst (ephemeral_entries w))"
    by (rule ephemeral_entries_ok)
  obtain ss ws where s: "seed_entries pid nrm w = (Inr ss, ws)"
    and ss: "ss = projr (fst (seed_entries pid nrm w))"
    by (rule seed_entries_ok)
  have r: "find_or_generate_prices product_doc db w = (Inr out, db, w1)"
    using assms by (auto simp: find_or_generate_prices_def e split: option.splits)
  have a: "list_all2 same_offer out ss"
    unfolding out ss by (simp add: ephemeral_entries_def seed_entries_def uniform_eq loops_same)
  have b: "map url out = map (\<lambda>p. Some (''https://'' @ host_of p @ ''.com'')) PLATFORMS"
    unfolding out by (simp add: ephemeral_entries_def uniform_eq ephemeral_loop_url)
  have c: "map url ss = map (\<lambda>p. Some (''https://'' @ host_of p @ ''.com/search?q='' @ nrm)) PLATFORMS"
    unfolding ss by (simp add: seed_entries_def uniform_eq seed_loop_url)
  have d: "\<forall>e \<in> set out. product_id e = None \<and> entry_created_at e = None \<and> entry_updated_at e = None"
    unfolding out by (auto simp add: ephemeral_entries_def uniform_eq dest: ephemeral_loop_unstored)
  from r s a b c d show ?thesis by blast
qed

theorem ephemeral_like_seeding_witness:
  "(None :: store option) = None \<and> p_id pd_new = None \<and>
   (\<exists>es w' ss ws. find_or_generate_prices pd_new None w0 = (Inr es, None, w') \<and>
      seed_entries 7 ''iphone 15'' w0 = (Inr ss, ws) \<and>
      list_all2 same_offer es ss \<and> list_all (\<lambda>e. product_id e = None) es)"
proof -
  have n: "p_id pd_new = None" by (simp add: pd_new_def)
  then have h: "(None :: store option) = None \<or> p_id pd_new = None" by simp
  from ephemeral_like_seeding[OF h, of w0 7 "''iphone 15''"] n show ?thesis
    by (simp only: list_all_iff) blast
qed

section \<open>Trending deals\<close>

text \<open>One round of \<open>sample_loop\<close> removes the element it takes from the pool.\<close>

lemma mset_pool_step:
  assumes "j < length pool"
  shows "mset (butlast (pool[j := last pool])) = mset pool - {#pool ! j#}"
proof -
  have ne: "pool \<noteq> []" using assms by auto
  let ?ys = "pool[j := last pool]"
  have ne': "?ys \<noteq> []" using ne by simp
  have l: "last ?ys = last pool"
    using assms ne by (simp add: last_conv_nth nth_list_update)
  have "mset ?ys = mset (butlast ?ys) + {#last ?ys#}"
    using append_butlast_last_id[OF ne'] by (metis mset_append mset_single_iff_right mset.simps(2) mset.simps(1))
  then have "mset (butlast ?ys) = mset ?ys - {#last pool#}" using l by simp
  also have "mset ?ys = add_mset (last pool) (mset pool - {#pool ! j#})"
    using assms by (simp add: mset_update)
  finally show ?thesis by simp
qed

lemma sample_loop_props:
  "k \<le> length pool \<Longrightarrow> distinct pool \<Longrightarrow>
   length (fst (sample_loop pool k w)) = k \<and> distinct (fst (sample_loop pool k w)) \<and>
   set (fst (sample_loop pool k w)) \<subseteq> set pool"
proof (induction k arbitrary: pool w)
  case 0 show ?case by simp
next
  case (Suc k)
  define j where "j = nth_draw (rng w) 0 mod length pool"
  define pool' where "pool' = butlast (pool[j := last pool])"
  define w1 where "w1 = w\<lparr>rng := tl (rng w)\<rparr>"
  have pos: "0 < length pool" using Suc.prems(1) by (cases pool) simp_all
  then have j: "j < length pool" by (simp add: j_def)
  have m: "mset pool' = mset pool - {#pool ! j#}" unfolding pool'_def by (rule mset_pool_step[OF j])
  have m': "mset pool' = mset (remove1 (pool ! j) pool)" using m by simp
  have d': "distinct pool'"
    using mset_eq_imp_distinct_iff[OF m'] Suc.prems(2) by simp
  have s': "set pool' = set pool - {pool ! j}"
    using mset_eq_setD[OF m'] Suc.prems(2) by simp
  have len': "length pool' = length pool - 1" by (simp add: pool'_def)
  then have k: "k \<le> length pool'" using Suc.prems(1) by simp
  note ih = Suc.IH[OF k d', of w1]
  have e: "fst (sample_loop pool (Suc k) w) = pool ! j # fst (sample_loop pool' k w1)"
    by (simp add: draw_eq Let_def case_prod_beta j_def pool'_def w1_def)
  show ?case unfolding e using ih s' j by auto
qed

lemma deal_prices_loop_platform: "map dp_platform (fst (deal_prices_loop ps nm base w)) = ps"
  by (induction ps arbitrary: w) (simp_all add: case_prod_beta)

lemma foldl_min_price:
  "foldl (\<lambda>m y. if dp_price y < dp_price m then y else m) x xs \<in> set (x # xs) \<and>
   (\<forall>e \<in> set (x # xs). dp_price (foldl (\<lambda>m y. if dp_price y < dp_price m then y else m) x xs) \<le> dp_price e)"
proof (induction xs arbitrary: x)
  case Nil show ?case by simp
next
  case (Cons y ys)
  let ?m = "if dp_price y < dp_price x then y else x"
  from Cons.IH[of ?m] show ?case by (auto split: if_splits)
qed

lemma min_by_price_lowest:
  assumes "xs \<noteq> []"
  shows "\<exists>l \<in> set xs. min_by_price xs = Some l \<and> (\<forall>e \<in> set xs. dp_price l \<le> dp_price e)"
proof -
  from assms obtain y ys where xs: "xs = y # ys" by (cases xs) auto
  show ?thesis unfolding xs using foldl_min_price[of y ys] by simp
qed

lemma PLATFORMS_distinct: "distinct PLATFORMS"
  by (simp add: PLATFORMS_def)

lemma make_deal_props:
  "length (deal_platforms (fst (make_deal w))) = 4 \<and>
   distinct (map dp_platform (deal_platforms (fst (make_deal w)))) \<and>
   set (map dp_platform (deal_platforms (fst (make_deal w)))) \<subseteq> set PLATFORMS \<and>
   (\<exists>l \<in> set (deal_platforms (fst (make_deal w))).
      deal_lowest (fst (make_deal w)) = Some l \<and>
      (\<forall>e \<in> set (deal_platforms (fst (make_deal w))). dp_price l \<le> dp_price e))"
proof -
  define w4 where "w4 = snd (uniform 999 149999 (snd (choice DEAL_CATEGORIES (snd (choice DEAL_BRANDS
      (snd (choice DEAL_NAMES w)))))))"
  define ps where "ps = fst (sample_loop PLATFORMS 4 w4)"
  define w5 where "w5 = snd (sample_loop PLATFORMS 4 w4)"
  define nm where "nm = fst (choice DEAL_NAMES w)"
  define base where "base = fst (uniform 999 149999 (snd (choice DEAL_CATEGORIES (snd (choice DEAL_BRANDS
      (snd (choice DEAL_NAMES w)))))))"
  define pp where "pp = fst (deal_prices_loop ps nm base w5)"
  have k: "min 4 (length PLATFORMS) = 4" by (simp add: PLATFORMS_def)
  have dp: "deal_platforms (fst (make_deal w)) = pp"
    by (simp add: make_deal_def case_prod_beta sample_def k Let_def pp_def ps_def w5_def w4_def nm_def base_def)
  have dl: "deal_lowest (fst (make_deal w)) = min_by_price pp"
    by (simp add: make_deal_def case_prod_beta sample_def k Let_def pp_def ps_def w5_def w4_def nm_def base_def)
  have "4 \<le> length PLATFORMS" by (simp add: PLATFORMS_def)
  from sample_loop_props[OF this PLATFORMS_distinct, of w4]
  have s: "length ps = 4" "distinct ps" "set ps \<subseteq> set PLATFORMS" by (simp_all add: ps_def)
  have m: "map dp_platform pp = ps" unfolding pp_def by (rule deal_prices_loop_platform)
  have len: "length pp = 4" using m s(1) by (metis length_map)
  then have ne: "pp \<noteq> []" by auto
  from min_by_price_lowest[OF ne] show ?thesis
    unfolding dp dl using len m s by simp
qed

lemma deals_loop_length: "length (fst (deals_loop n w)) = n"
  by (induction n arbitrary: w) (simp_all add: case_prod_beta)

lemma deals_loop_mem: "d \<in> set (fst (deals_loop n w)) \<Longrightarrow> \<exists>v. d = fst (make_deal v)"
  by (induction n arbitrary: w) (auto simp add: case_prod_beta)

text \<open>
  C8, as the claim states it, fails for a negative limit: the loop does not run, and the
  number of items, 0, is not the limit.
\<close>

theorem trending_negative_limit:
  "fst (fst (trending_deals (- 1) w0)) = [] \<and> int (length (fst (fst (trending_deals (- 1) w0)))) \<noteq> - 1"
  by (simp add: trending_deals_def case_prod_beta)

text \<open>
  C8, amended. \<open>trending_deals limit\<close> returns \<open>limit\<close> items when \<open>limit \<ge> 0\<close> and none
  when it is negative (\<open>nat limit\<close> items). Each item has four price entries, for four
  different platforms of \<open>PLATFORMS\<close>, each with one price (the entries have no history),
  and its \<open>lowest\<close> is one of them, with a price that is at most the price of every
  entry of the item.
\<close>

theorem trending_items:
  "length (fst (fst (trending_deals limit w))) = nat limit \<and>
   (\<forall>d \<in> set (fst (fst (trending_deals limit w))).
      length (deal_platforms d) = 4 \<and>
      distinct (map dp_platform (deal_platforms d)) \<and>
      set (map dp_platform (deal_platforms d)) \<subseteq> set PLATFORMS \<and>
      (\<exists>l \<in> set (deal_platforms d).
         deal_lowest d = Some l \<and> (\<forall>e \<in> set (deal_platforms d). dp_price l \<le> dp_price e)))"
proof -
  have i: "fst (fst (trending_deals limit w)) = fst (deals_loop (nat limit) w)"
    by (simp add: trending_deals_def case_prod_beta)
  show ?thesis unfolding i
  proof (rule conjI, rule deals_loop_length, rule ballI)
    fix d assume "d \<in> set (fst (deals_loop (nat limit) w))"
    then obtain v where d: "d = fst (make_deal v)" using deals_loop_mem by blast
    show "length (deal_platforms d) = 4 \<and>
      distinct (map dp_platform (deal_platforms d)) \<and>
      set (map dp_platform (deal_platforms d)) \<subseteq> set PLATFORMS \<and>
      (\<exists>l \<in> set (deal_platforms d).
         deal_lowest d = Some l \<and> (\<forall>e \<in> set (deal_platforms d). dp_price l \<le> dp_price e))"
      unfolding d by (rule make_deal_props)
  qed
qed

theorem trending_items_witness:
  "length (fst (fst (trending_deals 3 w0))) = 3 \<and>
   list_all (\<lambda>d. length (deal_platforms d) = 4 \<and> distinct (map dp_platform (deal_platforms d)) \<and>
        list_ex (\<lambda>l. deal_lowest d = Some l \<and> list_all (\<lambda>e. dp_price l \<le> dp_price e) (deal_platforms d))
          (deal_platforms d))
     (fst (fst (trending_deals 3 w0)))"
proof -
  have n: "nat 3 = 3" by simp
  from trending_items[of 3 w0] show ?thesis
    unfolding n list_all_iff list_ex_iff by blast
qed

end
